theory Spec2Isabelle
  imports Main "HOL-Library.Word"
begin

unbundle bit_operations_syntax

section \<open>Common conventions\<close>

text \<open>
  The kernel is C for 32-bit x86.  \<^verbatim>\<open>uint\<close> is \<^typ>\<open>32 word\<close>, \<^verbatim>\<open>int\<close> is
  \<^typ>\<open>int\<close> where its range plays no role and \<^typ>\<open>32 word\<close> read with \<^const>\<open>sint\<close>
  where it does.  A call of \<^verbatim>\<open>panic("msg")\<close> never returns: every function that can
  reach one returns a sum whose left injection carries the message.
\<close>

type_synonym u32 = "32 word"

type_synonym byte = "8 word"

type_synonym 'a fatal = "string + 'a"

section \<open>The write-ahead log: \<^verbatim>\<open>log_write\<close> (fileSystem/log.c)\<close>

text \<open>Constants of type/param.h.\<close>

definition MAXOPBLOCKS :: nat where
  "MAXOPBLOCKS = 10"

definition LOGSIZE :: nat where
  "LOGSIZE = MAXOPBLOCKS * 3"

definition B_VALID :: u32 where
  "B_VALID = 0x2"

definition B_DIRTY :: u32 where
  "B_DIRTY = 0x4"

text \<open>
  \<^verbatim>\<open>struct logheader { int n; int block[LOGSIZE]; }\<close>.  The array holds 32-bit
  cells; the test \<^verbatim>\<open>log.lh.block[i] == b->blockno\<close> compares an \<^verbatim>\<open>int\<close> with a
  \<^verbatim>\<open>uint\<close>, that is, the two bit patterns.
\<close>

record logheader =
  lh_n :: int
  lh_block :: "u32 list"

record log =
  log_start :: int
  log_size :: int
  log_outstanding :: int
  log_committing :: int
  log_dev :: int
  log_lh :: logheader

text \<open>The fields of \<^verbatim>\<open>struct buf\<close> that \<^verbatim>\<open>log_write\<close> touches.\<close>

record buf =
  buf_flags :: u32
  buf_dev :: u32
  buf_blockno :: u32

text \<open>
  The absorption scan
  \<^verbatim>\<open>for (i = 0; i < log.lh.n; i++) if (log.lh.block[i] == b->blockno) break;\<close>
  returns the value of \<^verbatim>\<open>i\<close> on leaving the loop.
\<close>

function log_scan :: "logheader \<Rightarrow> u32 \<Rightarrow> int \<Rightarrow> int" where
  "log_scan h bno i =
     (if i < lh_n h then
        (if lh_block h ! nat i = bno then i else log_scan h bno (i + 1))
      else i)"
  by pat_completeness auto
termination
  by (relation "measure (\<lambda>(h, bno, i). nat (lh_n h - i))") auto

declare log_scan.simps [simp del]

definition log_write :: "log \<Rightarrow> buf \<Rightarrow> (log \<times> buf) fatal" where
  "log_write lg b =
     (if lh_n (log_lh lg) \<ge> int LOGSIZE \<or> lh_n (log_lh lg) \<ge> log_size lg - 1
      then Inl ''too big a transaction''
      else if log_outstanding lg < 1
      then Inl ''log_write outside of trans''
      else
        let h = log_lh lg;
            i = log_scan h (buf_blockno b) 0;
            h' = (if i = lh_n h
                  then h\<lparr>lh_block := (lh_block h)[nat i := buf_blockno b],
                         lh_n := lh_n h + 1\<rparr>
                  else h)
        in Inr (lg\<lparr>log_lh := h'\<rparr>, b\<lparr>buf_flags := buf_flags b OR B_DIRTY\<rparr>))"

text \<open>
  A transaction as the log sees it: the calls of \<^verbatim>\<open>log_write\<close> made between two
  commits, in order.  The run stops at the first panic.
\<close>

fun log_writes :: "log \<Rightarrow> buf list \<Rightarrow> log fatal" where
  "log_writes lg [] = Inr lg"
| "log_writes lg (b # bs) =
     (case log_write lg b of
        Inl msg \<Rightarrow> Inl msg
      | Inr (lg', b') \<Rightarrow> log_writes lg' bs)"

text \<open>The staged header's live entries: \<^verbatim>\<open>block[0 .. n-1]\<close>.\<close>

definition lh_entries :: "logheader \<Rightarrow> u32 list" where
  "lh_entries h = take (nat (lh_n h)) (lh_block h)"

text \<open>A header as \<^verbatim>\<open>struct logheader\<close> lays it out: the array has \<^verbatim>\<open>LOGSIZE\<close> cells.\<close>

definition lh_wf :: "logheader \<Rightarrow> bool" where
  "lh_wf h \<longleftrightarrow> length (lh_block h) = LOGSIZE"

text \<open>A transaction of three writes, two of them to block 7.\<close>

definition log0 :: log where
  "log0 = \<lparr>log_start = 2, log_size = 30, log_outstanding = 1, log_committing = 0,
           log_dev = 1, log_lh = \<lparr>lh_n = 0, lh_block = replicate 30 0\<rparr>\<rparr>"

definition mkbuf :: "u32 \<Rightarrow> buf" where
  "mkbuf bno = \<lparr>buf_flags = B_VALID, buf_dev = 1, buf_blockno = bno\<rparr>"


definition log_final :: log where
  "log_final = log0\<lparr>log_lh := \<lparr>lh_n = 2, lh_block = [7, 9] @ replicate 28 0\<rparr>\<rparr>"

section \<open>Inode block map and \<^verbatim>\<open>writei\<close> (fileSystem/fs.c, fileSystem/fs.h)\<close>

text \<open>Constants of fs.h, stat.h and param.h.  \<^verbatim>\<open>sizeof(uint)\<close> is 4.\<close>

definition BSIZE :: nat where
  "BSIZE = 512"

definition NDIRECT :: nat where
  "NDIRECT = 12"

definition NINDIRECT :: nat where
  "NINDIRECT = BSIZE div 4"

definition MAXFILE :: nat where
  "MAXFILE = NDIRECT + NINDIRECT"

definition T_DIR :: int where
  "T_DIR = 1"

definition T_FILE :: int where
  "T_FILE = 2"



text \<open>
  The disk as the inode layer sees it through \<^verbatim>\<open>bread\<close>, \<^verbatim>\<open>log_write\<close> and
  \<^verbatim>\<open>brelse\<close>: a store of 512-byte blocks indexed by block number.  The free bitmap
  (one bit per block, kept in the blocks from \<^verbatim>\<open>sb.bmapstart\<close>) is carried as a
  predicate on block numbers, and the on-disk inodes as a table indexed by inode number.
  The log is part of the disk state: every \<^verbatim>\<open>log_write(bp)\<close> of the inode layer is a
  call of \<open>log_write\<close> (above) with the block number of \<^verbatim>\<open>bp\<close>, and its two panics are
  outcomes of the functions below.  \<open>d_bmapstart\<close> and \<open>d_inodestart\<close> are the superblock
  fields that place the bitmap and the inode blocks.  The buffer cache and its sleeplocks
  are not part of this model.  Block numbers and byte counts are \<^verbatim>\<open>uint\<close>: they are
  naturals here, and the places where the C arithmetic can wrap write \<open>mod 2 ^ 32\<close> out.
\<close>

record inode =
  i_dev :: nat
  i_inum :: nat
  i_type :: int
  i_major :: int
  i_minor :: int
  i_nlink :: int
  i_size :: nat
  i_addrs :: "nat list"

record fsdisk =
  d_size :: u32
  d_bmapstart :: nat
  d_inodestart :: nat
  d_bitmap :: "nat \<Rightarrow> bool"
  d_blocks :: "nat \<Rightarrow> byte list"
  d_inodes :: "nat \<Rightarrow> inode option"
  d_log :: log








definition wr32 :: "byte list \<Rightarrow> nat \<Rightarrow> nat \<Rightarrow> byte list" where
  "wr32 blk i v =
     blk[4 * i := of_nat (v mod 256),
         4 * i + 1 := of_nat (v div 256 mod 256),
         4 * i + 2 := of_nat (v div 65536 mod 256),
         4 * i + 3 := of_nat (v div 16777216 mod 256)]"












definition log_room :: "fsdisk \<Rightarrow> nat \<Rightarrow> bool" where
  "log_room d k \<longleftrightarrow>
     1 \<le> log_outstanding (d_log d) \<and>
     lh_n (log_lh (d_log d)) + int k \<le> int LOGSIZE \<and>
     lh_n (log_lh (d_log d)) + int k \<le> log_size (d_log d) - 1"








section \<open>Processes (processus/proc.h, proc.c)\<close>

definition NPROC :: nat where
  "NPROC = 64"

definition NOFILE :: nat where
  "NOFILE = 16"

datatype procstate = UNUSED | EMBRYO | SLEEPING | RUNNABLE | RUNNING | ZOMBIE

text \<open>
  \<^verbatim>\<open>struct proc\<close>.  Pointers are addresses, \<open>0\<close> being the null pointer; a pointer into
  the process table (\<^verbatim>\<open>parent\<close>) is the index of the slot, and a pointer into the file
  table (\<^verbatim>\<open>ofile[fd]\<close>) the index of the open-file object, \<open>None\<close> being null.  Of the
  trap frame only the saved user stack pointer \<^verbatim>\<open>tf->trapframeHardware.esp\<close> is kept.
\<close>

record proc =
  p_sz :: u32
  p_pgdir :: nat
  p_kstack :: nat
  p_state :: procstate
  p_pid :: int
  p_parent :: "nat option"
  p_esp :: u32
  p_chan :: nat
  p_killed :: int
  p_ofile :: "nat option list"
  p_name :: string

section \<open>\<^verbatim>\<open>wait\<close> (proc.c)\<close>

text \<open>
  The part of the kernel state \<^verbatim>\<open>wait\<close> works on: the process table \<^verbatim>\<open>ptable.proc\<close>,
  and the calls it makes into the memory system, \<^verbatim>\<open>kfree(p->kstack)\<close> and
  \<^verbatim>\<open>freevm(p->pgdir)\<close>, recorded in call order with their argument.  The whole of
  \<^verbatim>\<open>wait\<close> runs under \<^verbatim>\<open>ptable.lock\<close>, except while it sleeps.
\<close>

record pstate =
  ptable :: "proc list"
  kfree_calls :: "nat list"
  freevm_calls :: "nat list"

text \<open>
  The inner scan \<^verbatim>\<open>for (p = ptable.proc; p < &ptable.proc[NPROC]; p++)\<close> over the
  slots from index \<open>i\<close> on: it stops at the first child that is a zombie and returns its
  index, and otherwise reports whether a child was seen (\<^verbatim>\<open>havekids\<close>).
\<close>

fun wait_scan :: "proc list \<Rightarrow> nat \<Rightarrow> nat \<Rightarrow> bool \<Rightarrow> nat option \<times> bool" where
  "wait_scan [] cur i havekids = (None, havekids)"
| "wait_scan (p # ps) cur i havekids =
     (if p_parent p \<noteq> Some cur then wait_scan ps cur (i + 1) havekids
      else if p_state p = ZOMBIE then (Some i, True)
      else wait_scan ps cur (i + 1) True)"

text \<open>What \<^verbatim>\<open>wait\<close> does to the zombie child in slot \<open>i\<close> before returning its pid.\<close>

definition reap :: "pstate \<Rightarrow> nat \<Rightarrow> pstate" where
  "reap s i =
     (let p = ptable s ! i in
      s\<lparr>kfree_calls := kfree_calls s @ [p_kstack p],
        freevm_calls := freevm_calls s @ [p_pgdir p],
        ptable := (ptable s)[i := p\<lparr>p_kstack := 0, p_pid := 0, p_parent := None,
                                    p_name := [], p_killed := 0, p_state := UNUSED\<rparr>]\<rparr>)"

text \<open>
  One turn of the outer \<^verbatim>\<open>for (;;)\<close>: either \<^verbatim>\<open>wait\<close> returns, or it calls
  \<^verbatim>\<open>sleep(curproc, &ptable.lock)\<close>.
\<close>

datatype wait_turn = Returns int pstate | Sleeps

definition wait_turn :: "pstate \<Rightarrow> nat \<Rightarrow> wait_turn" where
  "wait_turn s cur =
     (case wait_scan (ptable s) cur 0 False of
        (Some i, havekids) \<Rightarrow> Returns (p_pid (ptable s ! i)) (reap s i)
      | (None, havekids) \<Rightarrow>
          if \<not> havekids \<or> p_killed (ptable s ! cur) \<noteq> 0 then Returns (- 1) s
          else Sleeps)"

text \<open>
  \<^verbatim>\<open>sleep(chan, &ptable.lock)\<close> marks the caller \<^verbatim>\<open>SLEEPING\<close> on the channel and
  enters the scheduler; when the caller runs again it clears the channel.  What the other
  processes (and the scheduler) did to the process table in between is the next element
  of \<open>env\<close>; when \<open>env\<close> is used up the caller is never woken and \<^verbatim>\<open>wait\<close> does not
  return (\<open>None\<close>).  The channel \<^verbatim>\<open>curproc\<close> is the address of the caller's slot, taken
  here to be its index plus one, so that it is not the null channel.
\<close>

definition go_to_sleep :: "pstate \<Rightarrow> nat \<Rightarrow> nat \<Rightarrow> pstate" where
  "go_to_sleep s cur chan =
     s\<lparr>ptable := (ptable s)[cur := (ptable s ! cur)\<lparr>p_chan := chan, p_state := SLEEPING\<rparr>]\<rparr>"

definition wake_from_sleep :: "pstate \<Rightarrow> nat \<Rightarrow> pstate" where
  "wake_from_sleep s cur = s\<lparr>ptable := (ptable s)[cur := (ptable s ! cur)\<lparr>p_chan := 0\<rparr>]\<rparr>"

fun wait :: "pstate \<Rightarrow> nat \<Rightarrow> (pstate \<Rightarrow> pstate) list \<Rightarrow> (int \<times> pstate) option" where
  "wait s cur env =
     (case wait_turn s cur of
        Returns r s' \<Rightarrow> Some (r, s')
      | Sleeps \<Rightarrow>
          (case env of
             [] \<Rightarrow> None
           | e # env' \<Rightarrow> wait (wake_from_sleep (e (go_to_sleep s cur (cur + 1))) cur) cur env'))"

text \<open>The caller's children and its zombie children, as sets of slots.\<close>

definition children :: "pstate \<Rightarrow> nat \<Rightarrow> nat set" where
  "children s cur = {i. i < length (ptable s) \<and> p_parent (ptable s ! i) = Some cur}"

definition zombie_children :: "pstate \<Rightarrow> nat \<Rightarrow> nat set" where
  "zombie_children s cur = {i \<in> children s cur. p_state (ptable s ! i) = ZOMBIE}"

text \<open>
  A table of three slots: slot 0 is a killed parent, slot 1 its running child, slot 2 is
  unused.
\<close>

definition proc_unused :: proc where
  "proc_unused = \<lparr>p_sz = 0, p_pgdir = 0, p_kstack = 0, p_state = UNUSED, p_pid = 0,
     p_parent = None, p_esp = 0, p_chan = 0, p_killed = 0, p_ofile = replicate 16 None,
     p_name = []\<rparr>"

definition ps_killed_parent :: pstate where
  "ps_killed_parent =
     \<lparr>ptable = [proc_unused\<lparr>p_state := RUNNING, p_pid := 3, p_killed := 1, p_name := ''sh''\<rparr>,
                 proc_unused\<lparr>p_state := RUNNABLE, p_pid := 4, p_parent := Some 0,
                             p_name := ''cat''\<rparr>,
                 proc_unused],
      kfree_calls = [], freevm_calls = []\<rparr>"

section \<open>System-call argument fetch (systemCall/syscall.c, sysproc.c)\<close>

text \<open>
  What the kernel can read while it runs on behalf of a process: the active address
  space, as a partial map from a virtual address to the 32-bit word stored there.  It
  holds the user pages and, in every address space, the kernel's own mappings from
  \<^verbatim>\<open>KERNBASE\<close> up.  A load from an address that is not mapped is a page fault in kernel
  mode, which \<^verbatim>\<open>trap\<close> turns into \<^verbatim>\<open>panic("trap")\<close>.
\<close>

type_synonym vmem = "u32 \<Rightarrow> u32 option"

text \<open>
  \<^verbatim>\<open>fetchint(addr, ip)\<close>: the body is \<^verbatim>\<open>*ip = *(int*)(addr); return 0;\<close>.  The test
  \<^verbatim>\<open>if (addr >= curproc->sz || addr + 4 > curproc->sz) return -1;\<close> is inside a
  comment in the source and is not executed.  The result is the return value and the
  word stored through \<^verbatim>\<open>ip\<close>.
\<close>

definition fetchint :: "vmem \<Rightarrow> u32 \<Rightarrow> (int \<times> u32) fatal" where
  "fetchint mem addr =
     (case mem addr of
        None \<Rightarrow> Inl ''trap''
      | Some v \<Rightarrow> Inr (0, v))"

text \<open>
  \<^verbatim>\<open>argint(n, ip)\<close> is \<^verbatim>\<open>fetchint(esp + 4 + 4 * n, ip)\<close>, the sum taken in unsigned
  32-bit arithmetic.
\<close>

definition argint :: "vmem \<Rightarrow> proc \<Rightarrow> int \<Rightarrow> (int \<times> u32) fatal" where
  "argint mem p n = fetchint mem (p_esp p + 4 + 4 * word_of_int n)"

text \<open>
  \<^verbatim>\<open>kill(pid)\<close>: the first slot whose pid matches is marked killed and, if asleep, made
  runnable.
\<close>

fun kill :: "proc list \<Rightarrow> int \<Rightarrow> int \<times> proc list" where
  "kill [] pid = (- 1, [])"
| "kill (p # ps) pid =
     (if p_pid p = pid
      then (0, p\<lparr>p_killed := 1,
                  p_state := (if p_state p = SLEEPING then RUNNABLE else p_state p)\<rparr> # ps)
      else (case kill ps pid of (r, ps') \<Rightarrow> (r, p # ps')))"

text \<open>
  \<^verbatim>\<open>sys_kill\<close>, called by the process in slot \<open>cur\<close>:
  \<^verbatim>\<open>if (argint(0, &pid) < 0) return -1; return kill(pid);\<close>.
\<close>

definition sys_kill :: "vmem \<Rightarrow> proc list \<Rightarrow> nat \<Rightarrow> (int \<times> proc list) fatal" where
  "sys_kill mem ps cur =
     (case argint mem (ps ! cur) 0 of
        Inl msg \<Rightarrow> Inl msg
      | Inr (r, pid) \<Rightarrow>
          if r < 0 then Inr (- 1, ps)
          else Inr (kill ps (sint pid)))"

text \<open>
  A process of one page (\<^verbatim>\<open>sz = 0x1000\<close>) whose saved stack pointer is
  \<^verbatim>\<open>0x80104ffc\<close>, an address in the kernel half, and a second process with pid 7.  The
  word at \<^verbatim>\<open>0x80105000\<close>, kernel data, happens to be 7.
\<close>

definition ps_bad_esp :: "proc list" where
  "ps_bad_esp =
     [proc_unused\<lparr>p_state := RUNNING, p_pid := 3, p_sz := 0x1000, p_esp := 0x80104ffc\<rparr>,
      proc_unused\<lparr>p_state := SLEEPING, p_pid := 7, p_sz := 0x1000, p_chan := 99\<rparr>]"

definition mem_kernel :: vmem where
  "mem_kernel = (\<lambda>a. if a = 0x80105000 then Some 7 else if a < 0x1000 then Some 0 else None)"

section \<open>Pipes (fileSystem/pipe.c)\<close>

definition PIPESIZE :: nat where
  "PIPESIZE = 512"

text \<open>
  \<^verbatim>\<open>struct pipe\<close> without its spinlock.  \<^verbatim>\<open>nread\<close> and \<^verbatim>\<open>nwrite\<close> are \<^verbatim>\<open>uint\<close>
  counters that only grow and wrap at \<open>2 ^ 32\<close>.
\<close>

record pipe =
  pi_data :: "byte list"
  pi_nread :: u32
  pi_nwrite :: u32
  pi_readopen :: int
  pi_writeopen :: int

text \<open>
  What \<^verbatim>\<open>pipewrite\<close> does that others can see, in order: a byte stored in the ring at an
  index, a \<^verbatim>\<open>wakeup\<close> on a channel, a \<^verbatim>\<open>sleep\<close> on a channel.  The two channels of a
  pipe are the addresses of its two counters.
\<close>

datatype pipe_chan = Chan_nread | Chan_nwrite

datatype pipe_event = Put nat byte | Wakeup pipe_chan | Sleep pipe_chan






text \<open>The bytes stored, in order.\<close>

fun puts :: "pipe_event list \<Rightarrow> byte list" where
  "puts [] = []"
| "puts (Put k b # es) = b # puts es"
| "puts (e # es) = puts es"







text \<open>
  The number of sleeps in a trace, and the shape of a trace: the writer goes to sleep on
  the write-side channel only, and only right after waking the readers.
\<close>

fun sleeps :: "pipe_event list \<Rightarrow> nat" where
  "sleeps [] = 0"
| "sleeps (Sleep c # es) = Suc (sleeps es)"
| "sleeps (e # es) = sleeps es"





section \<open>Physical page allocator (memory/kalloc.c, memlayout.h, mmu.h)\<close>

definition PGSIZE :: nat where
  "PGSIZE = 4096"

definition KERNBASE :: nat where
  "KERNBASE = 0x80000000"

definition PHYSTOP :: nat where
  "PHYSTOP = 0xE000000"

text \<open>
  \<^verbatim>\<open>kmem.freelist\<close> is a list threaded through the free pages themselves; it is kept
  here as the list of their (kernel virtual) addresses, head first.  \<^verbatim>\<open>end\<close>, the first
  address after the kernel image, is fixed by the linker; it is a field of the state.
  Addresses are \<^verbatim>\<open>uint\<close>, naturals below \<open>2 ^ 32\<close>; \<open>0\<close> is the null pointer.
\<close>

record kmem =
  km_end :: nat
  km_freelist :: "nat list"

text \<open>\<^verbatim>\<open>kalloc\<close> returns the head of the list, or 0 when the list is empty.\<close>

definition kalloc :: "kmem \<Rightarrow> nat \<times> kmem" where
  "kalloc k =
     (case km_freelist k of
        [] \<Rightarrow> (0, k)
      | r # rest \<Rightarrow> (r, k\<lparr>km_freelist := rest\<rparr>))"

text \<open>
  \<^verbatim>\<open>kfree(v)\<close> panics unless \<open>v\<close> is page-aligned and lies between \<^verbatim>\<open>end\<close> and
  \<^verbatim>\<open>P2V(PHYSTOP)\<close>; \<^verbatim>\<open>V2P(v)\<close> is \<open>v - KERNBASE\<close> in unsigned arithmetic.  Filling
  the page with the byte 1 is left to the caller of this definition, which knows what
  the page held.
\<close>

definition kfree_ok :: "kmem \<Rightarrow> nat \<Rightarrow> bool" where
  "kfree_ok k v \<longleftrightarrow>
     v mod PGSIZE = 0 \<and> km_end k \<le> v \<and> (v + 2 ^ 32 - KERNBASE) mod 2 ^ 32 < PHYSTOP"

definition kfree :: "kmem \<Rightarrow> nat \<Rightarrow> kmem fatal" where
  "kfree k v =
     (if \<not> kfree_ok k v then Inl ''kfree''
      else Inr (k\<lparr>km_freelist := v # km_freelist k\<rparr>))"

section \<open>Open files and pipe allocation (fileSystem/file.c, pipe.c, file.h)\<close>

definition NFILE :: nat where
  "NFILE = 100"

datatype ftype = FD_NONE | FD_PIPE | FD_INODE

text \<open>
  \<^verbatim>\<open>struct file\<close> (\<open>file\<close> is a reserved word here, hence \<open>kfile\<close>).  \<^verbatim>\<open>pipe\<close> and \<^verbatim>\<open>ip\<close> are addresses (0 is null).  A
  \<^verbatim>\<open>struct file*\<close> is the index of a slot of \<^verbatim>\<open>ftable.file\<close>, or \<open>None\<close> for the null
  pointer.
\<close>

record kfile =
  f_type :: ftype
  f_ref :: int
  f_readable :: int
  f_writable :: int
  f_pipe :: nat
  f_ip :: nat
  f_off :: u32

text \<open>
  What the file layer does to the rest of the kernel is kept as a trace: the spinlocks it
  acquires and releases, and its calls of \<^verbatim>\<open>begin_op\<close>, \<^verbatim>\<open>iput\<close> and \<^verbatim>\<open>end_op\<close>
  (which belong to the log and the inode layer) with their argument.
\<close>

datatype klock = Ftable_lock | Pipe_lock nat

datatype kevent = Acq klock | Rel klock | Call string nat

text \<open>
  The state of the file layer: the file table, the pipes (a pipe lives in the page
  \<^verbatim>\<open>kalloc\<close> gave for it, and is named by that address), the page allocator and the
  trace.
\<close>

record fstate =
  ftable :: "kfile list"
  pipes :: "nat \<Rightarrow> pipe option"
  fs_kmem :: kmem
  ktrace :: "kevent list"

definition emit :: "kevent list \<Rightarrow> fstate \<Rightarrow> fstate" where
  "emit es s = s\<lparr>ktrace := ktrace s @ es\<rparr>"

text \<open>
  \<^verbatim>\<open>filealloc\<close>: the first slot with \<^verbatim>\<open>ref == 0\<close> gets \<^verbatim>\<open>ref = 1\<close>; the other
  fields of the slot are left as they are.
\<close>

fun first_free_file :: "kfile list \<Rightarrow> nat \<Rightarrow> nat option" where
  "first_free_file [] i = None"
| "first_free_file (f # fs) i = (if f_ref f = 0 then Some i else first_free_file fs (i + 1))"

definition filealloc :: "fstate \<Rightarrow> nat option \<times> fstate" where
  "filealloc s =
     (case first_free_file (ftable s) 0 of
        None \<Rightarrow> (None, emit [Acq Ftable_lock, Rel Ftable_lock] s)
      | Some i \<Rightarrow>
          (Some i, emit [Acq Ftable_lock, Rel Ftable_lock]
                     (s\<lparr>ftable := (ftable s)[i := (ftable s ! i)\<lparr>f_ref := 1\<rparr>]\<rparr>)))"

text \<open>
  \<^verbatim>\<open>pipeclose(p, writable)\<close>.  A pointer that names no pipe is outside the model: the
  C code would read and write whatever that memory holds.
\<close>

definition pipeclose :: "fstate \<Rightarrow> nat \<Rightarrow> int \<Rightarrow> fstate fatal" where
  "pipeclose s p writable =
     (case pipes s p of
        None \<Rightarrow> Inl ''pipeclose: pointer to no pipe''
      | Some pi \<Rightarrow>
          let pi' = (if writable \<noteq> 0 then pi\<lparr>pi_writeopen := 0\<rparr> else pi\<lparr>pi_readopen := 0\<rparr>);
              s1 = emit [Acq (Pipe_lock p)] s
          in if pi_readopen pi' = 0 \<and> pi_writeopen pi' = 0
             then (case kfree (fs_kmem s1) p of
                     Inl msg \<Rightarrow> Inl msg
                   | Inr k' \<Rightarrow>
                       Inr ((emit [Rel (Pipe_lock p)] s1)\<lparr>pipes := (pipes s1)(p := None),
                                                         fs_kmem := k'\<rparr>))
             else Inr ((emit [Rel (Pipe_lock p)] s1)\<lparr>pipes := (pipes s1)(p \<mapsto> pi')\<rparr>))"

text \<open>
  \<^verbatim>\<open>fileclose(f)\<close>.  \<^verbatim>\<open>ftable.lock\<close> is acquired on entry; it is released before the
  early return when references remain, and otherwise at the very end, after the backing
  object has been released.  A null or foreign pointer is outside the model.
\<close>

definition fileclose :: "fstate \<Rightarrow> nat option \<Rightarrow> fstate fatal" where
  "fileclose s fp =
     (case fp of
        None \<Rightarrow> Inl ''fileclose: null pointer''
      | Some i \<Rightarrow>
          if \<not> i < length (ftable s) then Inl ''fileclose: pointer outside ftable''
          else
            let s1 = emit [Acq Ftable_lock] s;
                f = ftable s1 ! i
            in if f_ref f < 1 then Inl ''fileclose''
               else
                 let f1 = f\<lparr>f_ref := f_ref f - 1\<rparr>;
                     s2 = s1\<lparr>ftable := (ftable s1)[i := f1]\<rparr>
                 in if f_ref f1 > 0 then Inr (emit [Rel Ftable_lock] s2)
                    else
                      (case (if f_type f1 = FD_PIPE then pipeclose s2 (f_pipe f1) (f_writable f1)
                             else if f_type f1 = FD_INODE
                             then Inr (emit [Call ''begin_op'' 0, Call ''iput'' (f_ip f1),
                                             Call ''end_op'' 0] s2)
                             else Inr s2) of
                         Inl msg \<Rightarrow> Inl msg
                       | Inr s3 \<Rightarrow>
                           Inr (emit [Rel Ftable_lock]
                                  (s3\<lparr>ftable := (ftable s3)[i := (ftable s3 ! i)\<lparr>f_type := FD_NONE\<rparr>]\<rparr>))))"

text \<open>
  \<^verbatim>\<open>int pipealloc(struct file* f0, struct file* f1)\<close>.  The two parameters are passed
  by value: the assignments \<^verbatim>\<open>f0 = filealloc()\<close> and \<^verbatim>\<open>f1 = filealloc()\<close> change the
  callee's copies only, so the function hands back nothing but its \<^verbatim>\<open>int\<close>.  The
  \<^verbatim>\<open>||\<close> chain stops at the first failure, leaving the later variables as they were on
  entry (\<^verbatim>\<open>p\<close> is then 0).  A page fresh from the free list holds the byte 1 throughout
  (\<^verbatim>\<open>kfree\<close> fills it), which is what the pipe's data buffer starts as.
\<close>

definition pipealloc_unwind :: "fstate \<Rightarrow> nat option \<Rightarrow> nat option \<Rightarrow> (int \<times> fstate) fatal" where
  "pipealloc_unwind s f0 f1 =
     (case (if f0 \<noteq> None then fileclose s f0 else Inr s) of
        Inl msg \<Rightarrow> Inl msg
      | Inr s1 \<Rightarrow>
          (case (if f1 \<noteq> None then fileclose s1 f1 else Inr s1) of
             Inl msg \<Rightarrow> Inl msg
           | Inr s2 \<Rightarrow> Inr (- 1, s2)))"

definition pipealloc :: "fstate \<Rightarrow> nat option \<Rightarrow> nat option \<Rightarrow> (int \<times> fstate) fatal" where
  "pipealloc s f0_arg f1_arg =
     (case filealloc s of
        (None, s1) \<Rightarrow> pipealloc_unwind s1 None f1_arg
      | (Some f0, s1) \<Rightarrow>
          (case filealloc s1 of
             (None, s2) \<Rightarrow> pipealloc_unwind s2 (Some f0) None
           | (Some f1, s2) \<Rightarrow>
               (case kalloc (fs_kmem s2) of (p, k') \<Rightarrow>
                  if p = 0 then pipealloc_unwind (s2\<lparr>fs_kmem := k'\<rparr>) (Some f0) (Some f1)
                  else
                    let pi = \<lparr>pi_data = replicate PIPESIZE 1, pi_nread = 0, pi_nwrite = 0,
                              pi_readopen = 1, pi_writeopen = 1\<rparr>;
                        ft = ftable s2;
                        ft1 = ft[f0 := (ft ! f0)\<lparr>f_type := FD_PIPE, f_readable := 1,
                                                  f_writable := 0, f_pipe := p\<rparr>];
                        ft2 = ft1[f1 := (ft1 ! f1)\<lparr>f_type := FD_PIPE, f_readable := 0,
                                                    f_writable := 1, f_pipe := p\<rparr>]
                    in Inr (0, s2\<lparr>fs_kmem := k', pipes := (pipes s2)(p \<mapsto> pi),
                                  ftable := ft2\<rparr>))))"

text \<open>
  \<^verbatim>\<open>fdalloc(f)\<close>: the first descriptor whose \<^verbatim>\<open>ofile\<close> entry is null receives \<open>f\<close>.
\<close>

fun first_free_fd :: "nat option list \<Rightarrow> nat \<Rightarrow> nat option" where
  "first_free_fd [] fd = None"
| "first_free_fd (e # es) fd = (if e = None then Some fd else first_free_fd es (fd + 1))"

definition fdalloc :: "proc \<Rightarrow> nat option \<Rightarrow> int \<times> proc" where
  "fdalloc p f =
     (case first_free_fd (take NOFILE (p_ofile p)) 0 of
        None \<Rightarrow> (- 1, p)
      | Some fd \<Rightarrow> (int fd, p\<lparr>p_ofile := (p_ofile p)[fd := f]\<rparr>))"

text \<open>A store of a word to memory; an unmapped address faults.\<close>

definition store32 :: "vmem \<Rightarrow> u32 \<Rightarrow> u32 \<Rightarrow> vmem fatal" where
  "store32 mem a v = (if mem a = None then Inl ''trap'' else Inr (mem(a \<mapsto> v)))"

text \<open>
  \<^verbatim>\<open>sys_pipe\<close>.  \<^verbatim>\<open>rf\<close> and \<^verbatim>\<open>wf\<close> are initialised to null and passed to
  \<^verbatim>\<open>pipealloc\<close> by value, so they are null in all that follows.  \<^verbatim>\<open>argptr\<close> is
  \<^verbatim>\<open>argint\<close> followed by a cast.
\<close>

definition sys_pipe ::
  "vmem \<Rightarrow> fstate \<Rightarrow> proc \<Rightarrow> (int \<times> vmem \<times> fstate \<times> proc) fatal" where
  "sys_pipe mem s p =
     (case argint mem p 0 of
        Inl msg \<Rightarrow> Inl msg
      | Inr (r, fd) \<Rightarrow>
          if r < 0 then Inr (- 1, mem, s, p)
          else
            let rf = None; wf = None in
            (case pipealloc s rf wf of
               Inl msg \<Rightarrow> Inl msg
             | Inr (r1, s1) \<Rightarrow>
                 if r1 < 0 then Inr (- 1, mem, s1, p)
                 else
                   (case fdalloc p rf of (fd0, p1) \<Rightarrow>
                      (case (if fd0 < 0 then (- 1, p1) else fdalloc p1 wf) of (fd1, p2) \<Rightarrow>
                         if fd0 < 0 \<or> fd1 < 0 then
                           let p3 = (if fd0 \<ge> 0 then p2\<lparr>p_ofile := (p_ofile p2)[nat fd0 := None]\<rparr>
                                     else p2)
                           in (case fileclose s1 rf of
                                 Inl msg \<Rightarrow> Inl msg
                               | Inr s2 \<Rightarrow>
                                   (case fileclose s2 wf of
                                      Inl msg \<Rightarrow> Inl msg
                                    | Inr s3 \<Rightarrow> Inr (- 1, mem, s3, p3)))
                         else
                           (case store32 mem fd (word_of_int fd0) of
                              Inl msg \<Rightarrow> Inl msg
                            | Inr mem1 \<Rightarrow>
                                (case store32 mem1 (fd + 4) (word_of_int fd1) of
                                   Inl msg \<Rightarrow> Inl msg
                                 | Inr mem2 \<Rightarrow> Inr (0, mem2, s1, p2)))))))"

text \<open>
  A process with no open files calls \<^verbatim>\<open>pipe(fd)\<close> with \<open>fd = 0x2000\<close>, an array in its
  own memory; its stack pointer is \<open>0x2ff0\<close> and the argument slot at \<open>0x2ff4\<close> holds
  \<open>0x2000\<close>.  The file table has four free slots and two pages are free.
\<close>

definition file_free :: kfile where
  "file_free = \<lparr>f_type = FD_NONE, f_ref = 0, f_readable = 0, f_writable = 0, f_pipe = 0,
                f_ip = 0, f_off = 0\<rparr>"

definition fstate0 :: fstate where
  "fstate0 =
     \<lparr>ftable = [file_free, file_free, file_free, file_free],
      pipes = (\<lambda>a. None),
      fs_kmem = \<lparr>km_end = 0x80110000, km_freelist = [0x80400000, 0x80401000]\<rparr>,
      ktrace = []\<rparr>"

definition proc_pipe_caller :: proc where
  "proc_pipe_caller = proc_unused\<lparr>p_state := RUNNING, p_pid := 3, p_sz := 0x3000, p_esp := 0x2ff0\<rparr>"

definition mem_pipe_caller :: vmem where
  "mem_pipe_caller = (\<lambda>a. if a = 0x2ff4 then Some 0x2000 else if a < 0x3000 then Some 0xffffffff else None)"

text \<open>
  The spinlocks held after a trace, and the calls of a trace, each with the spinlocks
  held when it was made.
\<close>

fun held_after :: "klock list \<Rightarrow> kevent list \<Rightarrow> klock list" where
  "held_after held [] = held"
| "held_after held (Acq l # es) = held_after (l # held) es"
| "held_after held (Rel l # es) = held_after (remove1 l held) es"
| "held_after held (Call f x # es) = held_after held es"

fun calls_under_locks :: "klock list \<Rightarrow> kevent list \<Rightarrow> (string \<times> klock list) list" where
  "calls_under_locks held [] = []"
| "calls_under_locks held (Acq l # es) = calls_under_locks (l # held) es"
| "calls_under_locks held (Rel l # es) = calls_under_locks (remove1 l held) es"
| "calls_under_locks held (Call f x # es) = (f, held) # calls_under_locks held es"

text \<open>
  A file table whose slot 0 is the only reference to an open inode (at address
  \<open>0x80112000\<close> in the inode cache), as \<^verbatim>\<open>sys_open\<close> leaves it.
\<close>

definition fstate_inode :: fstate where
  "fstate_inode =
     \<lparr>ftable = [\<lparr>f_type = FD_INODE, f_ref = 1, f_readable = 1, f_writable = 0, f_pipe = 0,
                  f_ip = 0x80112000, f_off = 0\<rparr>],
      pipes = (\<lambda>a. None),
      fs_kmem = \<lparr>km_end = 0x80110000, km_freelist = []\<rparr>,
      ktrace = []\<rparr>"

section \<open>Spinlocks and the interrupt-disable stack (synchronization/spinlock.c)\<close>

definition FL_IF :: int where
  "FL_IF = 0x200"

text \<open>
  What \<^verbatim>\<open>pushcli\<close> and \<^verbatim>\<open>popcli\<close> use of a CPU: the two fields \<^verbatim>\<open>ncli\<close> and
  \<^verbatim>\<open>intena\<close> of \<^verbatim>\<open>struct cpu\<close>, and the interrupt-enable bit of the hardware flags
  register (\<^verbatim>\<open>readeflags() & FL_IF\<close>, cleared by \<^verbatim>\<open>cli\<close>, set by \<^verbatim>\<open>sti\<close>).
\<close>

record cpu =
  ncli :: int
  intena :: int
  eflags_if :: bool

definition pushcli :: "cpu \<Rightarrow> cpu" where
  "pushcli c =
     (let eflags_and_if = (if eflags_if c then FL_IF else 0);
          c1 = c\<lparr>eflags_if := False\<rparr>;
          c2 = (if ncli c1 = 0 then c1\<lparr>intena := eflags_and_if\<rparr> else c1)
      in c2\<lparr>ncli := ncli c2 + 1\<rparr>)"

definition popcli :: "cpu \<Rightarrow> cpu fatal" where
  "popcli c =
     (if eflags_if c then Inl ''popcli - interruptible''
      else if ncli c - 1 < 0 then Inl ''popcli''
      else
        let c1 = c\<lparr>ncli := ncli c - 1\<rparr>
        in if ncli c1 = 0 \<and> intena c1 \<noteq> 0 then Inr (c1\<lparr>eflags_if := True\<rparr>) else Inr c1)"

text \<open>
  \<^verbatim>\<open>struct spinlock\<close>: the word \<^verbatim>\<open>locked\<close> and the owner \<^verbatim>\<open>cpu\<close> (a CPU number, or
  \<open>None\<close> for the null pointer).  The name and the recorded call stack play no role.

  The machine: every CPU's state, the spinlocks (a lock is named by its index), and for
  each CPU whether it is inside the \<^verbatim>\<open>while (xchg(&lk->locked, 1) != 0)\<close> loop of
  \<^verbatim>\<open>acquire\<close>, and for which lock.
\<close>

record spinlock =
  locked :: u32
  lk_cpu :: "nat option"

record machine =
  cpus :: "nat \<Rightarrow> cpu"
  locks :: "spinlock list"
  spinning :: "nat \<Rightarrow> nat option"

text \<open>\<^verbatim>\<open>holding(lock)\<close> on CPU \<open>c\<close>: the answer and the CPU's state afterwards.\<close>

definition holding :: "nat \<Rightarrow> nat \<Rightarrow> machine \<Rightarrow> (bool \<times> machine) fatal" where
  "holding c l m =
     (let c1 = pushcli (cpus m c);
          r = (locked (locks m ! l) \<noteq> 0 \<and> lk_cpu (locks m ! l) = Some c)
      in case popcli c1 of
           Inl msg \<Rightarrow> Inl msg
         | Inr c2 \<Rightarrow> Inr (r, m\<lparr>cpus := (cpus m)(c := c2)\<rparr>))"

text \<open>
  One turn of \<^verbatim>\<open>while (xchg(&lk->locked, 1) != 0)\<close> on CPU \<open>c\<close>.  The exchange stores
  1 whatever it finds.  If it found 0 the loop is left and \<^verbatim>\<open>lk->cpu = mycpu()\<close>
  follows; otherwise the CPU stays in the loop.
\<close>

definition xchg_turn :: "nat \<Rightarrow> nat \<Rightarrow> machine \<Rightarrow> machine" where
  "xchg_turn c l m =
     (if locked (locks m ! l) = 0
      then m\<lparr>locks := (locks m)[l := (locks m ! l)\<lparr>locked := 1, lk_cpu := Some c\<rparr>],
             spinning := (spinning m)(c := None)\<rparr>
      else m\<lparr>locks := (locks m)[l := (locks m ! l)\<lparr>locked := 1\<rparr>],
             spinning := (spinning m)(c := Some l)\<rparr>)"

text \<open>\<^verbatim>\<open>acquire(lk)\<close> on CPU \<open>c\<close>, up to and including the first exchange.\<close>

definition acquire :: "nat \<Rightarrow> nat \<Rightarrow> machine \<Rightarrow> machine fatal" where
  "acquire c l m =
     (let m1 = m\<lparr>cpus := (cpus m)(c := pushcli (cpus m c))\<rparr>
      in case holding c l m1 of
           Inl msg \<Rightarrow> Inl msg
         | Inr (r, m2) \<Rightarrow> if r then Inl ''acquire'' else Inr (xchg_turn c l m2))"

definition release :: "nat \<Rightarrow> nat \<Rightarrow> machine \<Rightarrow> machine fatal" where
  "release c l m =
     (case holding c l m of
        Inl msg \<Rightarrow> Inl msg
      | Inr (r, m1) \<Rightarrow>
          if \<not> r then Inl ''release''
          else
            let m2 = m1\<lparr>locks := (locks m1)[l := (locks m1 ! l)\<lparr>lk_cpu := None, locked := 0\<rparr>]\<rparr>
            in case popcli (cpus m2 c) of
                 Inl msg \<Rightarrow> Inl msg
               | Inr c' \<Rightarrow> Inr (m2\<lparr>cpus := (cpus m2)(c := c')\<rparr>))"

text \<open>
  The actions of the CPUs on the locks, interleaved: a CPU calls \<^verbatim>\<open>acquire\<close> or
  \<^verbatim>\<open>release\<close> on a lock of the table unless it is spinning, and a spinning CPU can
  only take another turn of its loop.  A sequence that asks for anything else is not an
  execution (\<open>None\<close>); an execution ends at the first panic.
\<close>

datatype lock_op = Acquire nat nat | Retry nat | Release nat nat

fun enabled :: "lock_op \<Rightarrow> machine \<Rightarrow> bool" where
  "enabled (Acquire c l) m \<longleftrightarrow> spinning m c = None \<and> l < length (locks m)"
| "enabled (Retry c) m \<longleftrightarrow> spinning m c \<noteq> None"
| "enabled (Release c l) m \<longleftrightarrow> spinning m c = None \<and> l < length (locks m)"

fun step :: "lock_op \<Rightarrow> machine \<Rightarrow> machine fatal" where
  "step (Acquire c l) m = acquire c l m"
| "step (Retry c) m = Inr (xchg_turn c (the (spinning m c)) m)"
| "step (Release c l) m = release c l m"

fun run :: "lock_op list \<Rightarrow> machine \<Rightarrow> (machine fatal) option" where
  "run [] m = Some (Inr m)"
| "run (a # as) m =
     (if \<not> enabled a m then None
      else case step a m of
             Inl msg \<Rightarrow> Some (Inl msg)
           | Inr m' \<Rightarrow> run as m')"

text \<open>Lock \<open>l\<close> is held by CPU \<open>c\<close>; the number of locks CPU \<open>c\<close> holds.\<close>

definition held_by :: "nat \<Rightarrow> spinlock \<Rightarrow> bool" where
  "held_by c lk \<longleftrightarrow> locked lk \<noteq> 0 \<and> lk_cpu lk = Some c"

definition held_count :: "machine \<Rightarrow> nat \<Rightarrow> nat" where
  "held_count m c = length (filter (held_by c) (locks m))"

text \<open>
  The bookkeeping that \<^verbatim>\<open>acquire\<close> and \<^verbatim>\<open>release\<close> maintain: a CPU's nesting depth
  covers the locks it holds, plus one while it spins for a lock, and interrupts are off
  whenever the depth is positive.
\<close>

definition depth_ok :: "machine \<Rightarrow> bool" where
  "depth_ok m \<longleftrightarrow>
     (\<forall>c. int (held_count m c) + (if spinning m c = None then 0 else 1) \<le> ncli (cpus m c) \<and>
          (0 < ncli (cpus m c) \<longrightarrow> \<not> eflags_if (cpus m c)) \<and>
          (\<forall>l. spinning m c = Some l \<longrightarrow> l < length (locks m)))"

text \<open>The invariant of the specification.\<close>

definition held_implies_cli :: "machine \<Rightarrow> bool" where
  "held_implies_cli m \<longleftrightarrow>
     (\<forall>c l. l < length (locks m) \<and> held_by c (locks m ! l) \<longrightarrow>
        \<not> eflags_if (cpus m c) \<and> 1 \<le> ncli (cpus m c))"

text \<open>\<open>k\<close> calls of \<^verbatim>\<open>popcli\<close> in a row.\<close>

fun popcli_times :: "nat \<Rightarrow> cpu \<Rightarrow> cpu fatal" where
  "popcli_times 0 c = Inr c"
| "popcli_times (Suc k) c =
     (case popcli c of
        Inl msg \<Rightarrow> Inl msg
      | Inr c' \<Rightarrow> popcli_times k c')"

text \<open>
  A machine after boot: interrupts enabled, nothing held, two locks as \<^verbatim>\<open>initlock\<close>
  leaves them.
\<close>

definition machine0 :: machine where
  "machine0 =
     \<lparr>cpus = (\<lambda>c. \<lparr>ncli = 0, intena = 0, eflags_if = True\<rparr>),
      locks = [\<lparr>locked = 0, lk_cpu = None\<rparr>, \<lparr>locked = 0, lk_cpu = None\<rparr>],
      spinning = (\<lambda>c. None)\<rparr>"

text \<open>
  CPU 0 takes locks 0 and 1; CPU 1 asks for lock 0 and spins; CPU 0 releases lock 0;
  CPU 1's next exchange succeeds; CPU 0 releases lock 1.
\<close>

definition lock_ops0 :: "lock_op list" where
  "lock_ops0 = [Acquire 0 0, Acquire 0 1, Acquire 1 0, Release 0 0, Retry 1, Release 0 1]"

section \<open>Directories and \<^verbatim>\<open>sys_unlink\<close> (fileSystem/fs.c, sysfile.c)\<close>

definition DIRSIZ :: nat where
  "DIRSIZ = 14"

definition ROOTDEV :: nat where
  "ROOTDEV = 1"

definition ROOTINO :: nat where
  "ROOTINO = 1"

text \<open>
  \<^verbatim>\<open>struct dirent\<close>: a \<^verbatim>\<open>ushort inum\<close> and \<^verbatim>\<open>char name[DIRSIZ]\<close>, 16 bytes.  A name is
  the list of its characters; a C string ends at its first NUL or at the end of the list.
\<close>

record dirent =
  de_inum :: nat
  de_name :: string

definition sizeof_dirent :: nat where
  "sizeof_dirent = 2 + DIRSIZ"

definition NUL :: char where
  "NUL = char_of (0 :: nat)"

definition dirent_zero :: dirent where
  "dirent_zero = \<lparr>de_inum = 0, de_name = replicate DIRSIZ NUL\<rparr>"

text \<open>
  The directory layer sees the disk through \<^verbatim>\<open>readi\<close> and \<^verbatim>\<open>writei\<close>, one directory entry
  at a time and at offsets that are multiples of the entry size.  The on-disk inode
  (\<^verbatim>\<open>struct dinode\<close>) is held with the content its block addresses lead to, as the list of
  the entries stored there; block mapping, the buffer cache and the log are below this
  model, and \<^verbatim>\<open>begin_op\<close> and \<^verbatim>\<open>end_op\<close>, which touch none of the state below, are left out.
\<close>

record dinode =
  dn_type :: int
  dn_nlink :: int
  dn_size :: nat
  dn_data :: "dirent list"

text \<open>
  \<^verbatim>\<open>struct inode\<close> of file.h, the in-memory copy in \<^verbatim>\<open>icache\<close>, with its sleeplock as the
  flag \<open>m_locked\<close>.  An inode pointer is the index of its slot in the cache.
\<close>

record minode =
  m_dev :: nat
  m_inum :: nat
  m_ref :: int
  m_locked :: bool
  m_valid :: int
  m_type :: int
  m_nlink :: int
  m_size :: nat

record fsys =
  icache :: "minode list"
  dinodes :: "nat \<Rightarrow> dinode"

text \<open>
  A call either panics or, when it waits for a sleeplock that its own process holds,
  never returns.
\<close>

datatype stop = Panic string | Sleeps_forever

definition ino :: "fsys \<Rightarrow> nat \<Rightarrow> minode" where
  "ino st ip = icache st ! ip"

definition upd :: "fsys \<Rightarrow> nat \<Rightarrow> (minode \<Rightarrow> minode) \<Rightarrow> fsys" where
  "upd st ip f = st\<lparr>icache := (icache st)[ip := f (icache st ! ip)]\<rparr>"

text \<open>\<^verbatim>\<open>short\<close> arithmetic: \<^verbatim>\<open>nlink--\<close> wraps at the lower end of the range.\<close>

definition dec_short :: "int \<Rightarrow> int" where
  "dec_short n = (if n = - 32768 then 32767 else n - 1)"

text \<open>The character a \<^verbatim>\<open>char*\<close> points at: NUL at the end of the string.\<close>

definition ch :: "string \<Rightarrow> nat" where
  "ch s = (case s of [] \<Rightarrow> 0 | c # cs \<Rightarrow> of_char c)"

fun strncmp :: "string \<Rightarrow> string \<Rightarrow> nat \<Rightarrow> int" where
  "strncmp p q n =
     (if n > 0 \<and> ch p \<noteq> 0 \<and> ch p = ch q then strncmp (tl p) (tl q) (n - 1)
      else if n = 0 then 0
      else int (ch p) - int (ch q))"

declare strncmp.simps [simp del]

definition namecmp :: "string \<Rightarrow> string \<Rightarrow> int" where
  "namecmp s t = strncmp s t DIRSIZ"

text \<open>The sleeplock of an inode.\<close>

definition acquiresleep :: "fsys \<Rightarrow> nat \<Rightarrow> stop + fsys" where
  "acquiresleep st ip =
     (if m_locked (ino st ip) then Inl Sleeps_forever
      else Inr (upd st ip (\<lambda>i. i\<lparr>m_locked := True\<rparr>)))"

definition releasesleep :: "fsys \<Rightarrow> nat \<Rightarrow> fsys" where
  "releasesleep st ip = upd st ip (\<lambda>i. i\<lparr>m_locked := False\<rparr>)"

text \<open>
  \<^verbatim>\<open>iget\<close>: the first slot that caches (dev, inum) gets one more reference; otherwise the
  first slot with no reference is taken.
\<close>

fun iget_scan :: "minode list \<Rightarrow> nat \<Rightarrow> nat \<Rightarrow> nat \<Rightarrow> nat option \<Rightarrow> nat + nat option" where
  "iget_scan [] k dev inum free = Inr free"
| "iget_scan (i # is) k dev inum free =
     (if m_ref i > 0 \<and> m_dev i = dev \<and> m_inum i = inum then Inl k
      else iget_scan is (Suc k) dev inum
             (if free = None \<and> m_ref i = 0 then Some k else free))"

definition iget :: "fsys \<Rightarrow> nat \<Rightarrow> nat \<Rightarrow> stop + (nat \<times> fsys)" where
  "iget st dev inum =
     (case iget_scan (icache st) 0 dev inum None of
        Inl ip \<Rightarrow> Inr (ip, upd st ip (\<lambda>i. i\<lparr>m_ref := m_ref i + 1\<rparr>))
      | Inr None \<Rightarrow> Inl (Panic ''iget: no inodes'')
      | Inr (Some e) \<Rightarrow>
          Inr (e, upd st e (\<lambda>i. i\<lparr>m_dev := dev, m_inum := inum, m_ref := 1, m_valid := 0\<rparr>)))"

definition idup :: "fsys \<Rightarrow> nat \<Rightarrow> nat \<times> fsys" where
  "idup st ip = (ip, upd st ip (\<lambda>i. i\<lparr>m_ref := m_ref i + 1\<rparr>))"

definition iupdate_d :: "fsys \<Rightarrow> nat \<Rightarrow> fsys" where
  "iupdate_d st ip =
     (let i = ino st ip in
      st\<lparr>dinodes := (dinodes st)(m_inum i :=
            (dinodes st (m_inum i))\<lparr>dn_type := m_type i, dn_nlink := m_nlink i,
                                     dn_size := m_size i\<rparr>)\<rparr>)"

definition ilock :: "fsys \<Rightarrow> nat \<Rightarrow> stop + fsys" where
  "ilock st ip =
     (if m_ref (ino st ip) < 1 then Inl (Panic ''ilock'')
      else case acquiresleep st ip of
        Inl e \<Rightarrow> Inl e
      | Inr st1 \<Rightarrow>
          if m_valid (ino st1 ip) = 0 then
            (let dip = dinodes st1 (m_inum (ino st1 ip)) in
             if dn_type dip = 0 then Inl (Panic ''ilock: no type'')
             else Inr (upd st1 ip (\<lambda>i. i\<lparr>m_type := dn_type dip, m_nlink := dn_nlink dip,
                                           m_size := dn_size dip, m_valid := 1\<rparr>)))
          else Inr st1)"

definition iunlock :: "fsys \<Rightarrow> nat \<Rightarrow> stop + fsys" where
  "iunlock st ip =
     (if \<not> m_locked (ino st ip) \<or> m_ref (ino st ip) < 1 then Inl (Panic ''iunlock'')
      else Inr (releasesleep st ip))"

text \<open>\<^verbatim>\<open>itrunc\<close> frees the content of the inode and writes the inode back.\<close>

definition itrunc :: "fsys \<Rightarrow> nat \<Rightarrow> fsys" where
  "itrunc st ip =
     (let n = m_inum (ino st ip);
          st1 = st\<lparr>dinodes := (dinodes st)(n := (dinodes st n)\<lparr>dn_data := []\<rparr>)\<rparr>
      in iupdate_d (upd st1 ip (\<lambda>i. i\<lparr>m_size := 0\<rparr>)) ip)"

definition iput :: "fsys \<Rightarrow> nat \<Rightarrow> stop + fsys" where
  "iput st ip =
     (case acquiresleep st ip of
        Inl e \<Rightarrow> Inl e
      | Inr st1 \<Rightarrow>
          (let st2 =
                 (if m_valid (ino st1 ip) \<noteq> 0 \<and> m_nlink (ino st1 ip) = 0
                     \<and> m_ref (ino st1 ip) = 1
                  then upd (iupdate_d (upd (itrunc st1 ip) ip (\<lambda>i. i\<lparr>m_type := 0\<rparr>)) ip) ip
                         (\<lambda>i. i\<lparr>m_valid := 0\<rparr>)
                  else st1)
           in Inr (upd (releasesleep st2 ip) ip (\<lambda>i. i\<lparr>m_ref := m_ref i - 1\<rparr>))))"

definition iunlockput :: "fsys \<Rightarrow> nat \<Rightarrow> stop + fsys" where
  "iunlockput st ip = (case iunlock st ip of Inl e \<Rightarrow> Inl e | Inr st1 \<Rightarrow> iput st1 ip)"

text \<open>
  \<^verbatim>\<open>readi\<close> and \<^verbatim>\<open>writei\<close> of one \<^verbatim>\<open>struct dirent\<close> at offset \<open>off\<close>.  Their callers have
  checked that the inode is a directory, so the device branch is not taken.  A read that
  the size cuts short returns fewer than 16 bytes; entries past the stored ones read as
  zero, as the blocks \<^verbatim>\<open>bmap\<close> allocates are.
\<close>

definition nth_de :: "dirent list \<Rightarrow> nat \<Rightarrow> dirent" where
  "nth_de es k = (if k < length es then es ! k else dirent_zero)"

definition put_de :: "dirent list \<Rightarrow> nat \<Rightarrow> dirent \<Rightarrow> dirent list" where
  "put_de es k de =
     (if k < length es then es[k := de]
      else es @ replicate (k - length es) dirent_zero @ [de])"

definition readi_de :: "fsys \<Rightarrow> nat \<Rightarrow> nat \<Rightarrow> int \<times> dirent" where
  "readi_de st ip off =
     (let i = ino st ip in
      if off > m_size i then (- 1, dirent_zero)
      else (int (if off + sizeof_dirent > m_size i then m_size i - off else sizeof_dirent),
            nth_de (dn_data (dinodes st (m_inum i))) (off div sizeof_dirent)))"

definition writei_de :: "fsys \<Rightarrow> nat \<Rightarrow> nat \<Rightarrow> dirent \<Rightarrow> int \<times> fsys" where
  "writei_de st ip off de =
     (let i = ino st ip in
      if off > m_size i \<or> off + sizeof_dirent \<ge> 2 ^ 32 then (- 1, st)
      else if off + sizeof_dirent > MAXFILE * BSIZE then (- 1, st)
      else
        (let n = m_inum i;
             st1 = st\<lparr>dinodes := (dinodes st)(n := (dinodes st n)
                      \<lparr>dn_data := put_de (dn_data (dinodes st n)) (off div sizeof_dirent) de\<rparr>)\<rparr>;
             st2 = (if off + sizeof_dirent > m_size i
                    then iupdate_d (upd st1 ip (\<lambda>i. i\<lparr>m_size := off + sizeof_dirent\<rparr>)) ip
                    else st1)
         in (int sizeof_dirent, st2)))"

function dirlookup_from ::
  "fsys \<Rightarrow> nat \<Rightarrow> string \<Rightarrow> nat \<Rightarrow> stop + ((nat \<times> nat) option \<times> fsys)" where
  "dirlookup_from st dp name off =
     (if off < m_size (ino st dp) then
        (case readi_de st dp off of
           (n, de) \<Rightarrow>
             if n \<noteq> int sizeof_dirent then Inl (Panic ''dirlookup read'')
             else if de_inum de = 0 then dirlookup_from st dp name (off + sizeof_dirent)
             else if namecmp name (de_name de) = 0 then
               (case iget st (m_dev (ino st dp)) (de_inum de) of
                  Inl e \<Rightarrow> Inl e
                | Inr (ip, st1) \<Rightarrow> Inr (Some (ip, off), st1))
             else dirlookup_from st dp name (off + sizeof_dirent))
      else Inr (None, st))"
  by pat_completeness auto
termination
  by (relation "measure (\<lambda>(st, dp, name, off). m_size (ino st dp) - off)")
     (auto simp: sizeof_dirent_def DIRSIZ_def)

declare dirlookup_from.simps [simp del]

definition dirlookup :: "fsys \<Rightarrow> nat \<Rightarrow> string \<Rightarrow> stop + ((nat \<times> nat) option \<times> fsys)" where
  "dirlookup st dp name =
     (if m_type (ino st dp) \<noteq> T_DIR then Inl (Panic ''dirlookup not DIR'')
      else dirlookup_from st dp name 0)"

function isdirempty_from :: "fsys \<Rightarrow> nat \<Rightarrow> nat \<Rightarrow> stop + int" where
  "isdirempty_from st dp off =
     (if off < m_size (ino st dp) then
        (case readi_de st dp off of
           (n, de) \<Rightarrow>
             if n \<noteq> int sizeof_dirent then Inl (Panic ''isdirempty: readi'')
             else if de_inum de \<noteq> 0 then Inr 0
             else isdirempty_from st dp (off + sizeof_dirent))
      else Inr 1)"
  by pat_completeness auto
termination
  by (relation "measure (\<lambda>(st, dp, off). m_size (ino st dp) - off)")
     (auto simp: sizeof_dirent_def DIRSIZ_def)

declare isdirempty_from.simps [simp del]

definition isdirempty :: "fsys \<Rightarrow> nat \<Rightarrow> stop + int" where
  "isdirempty st dp = isdirempty_from st dp (2 * sizeof_dirent)"

text \<open>\<^verbatim>\<open>skipelem\<close>: the two loops over the path, and the copy into the 14-byte \<^verbatim>\<open>name\<close>.\<close>

fun skip_slashes :: "string \<Rightarrow> string" where
  "skip_slashes [] = []"
| "skip_slashes (c # cs) = (if c = CHR ''/'' then skip_slashes cs else c # cs)"

fun skip_name :: "string \<Rightarrow> string" where
  "skip_name [] = []"
| "skip_name (c # cs) = (if c \<noteq> CHR ''/'' \<and> c \<noteq> NUL then skip_name cs else c # cs)"

definition skipelem :: "string \<Rightarrow> string \<Rightarrow> (string \<times> string) option" where
  "skipelem path name =
     (let s = skip_slashes path in
      if ch s = 0 then None
      else
        (let path1 = skip_name s;
             len = length s - length path1;
             name1 = (if len \<ge> DIRSIZ then take DIRSIZ s @ drop DIRSIZ name
                      else take len s @ [NUL] @ drop (len + 1) name)
         in Some (skip_slashes path1, name1)))"

text \<open>
  \<^verbatim>\<open>namex\<close>.  The loop ends when \<^verbatim>\<open>skipelem\<close> finds no further element, and the inode
  reached is returned whatever \<^verbatim>\<open>nameiparent\<close> is, with \<^verbatim>\<open>name\<close> as the last call of
  \<^verbatim>\<open>skipelem\<close> left it.
\<close>

function namex_loop ::
  "fsys \<Rightarrow> nat \<Rightarrow> string \<Rightarrow> int \<Rightarrow> string \<Rightarrow> stop + (nat option \<times> string \<times> fsys)" where
  "namex_loop st ip path parent name =
     (case skipelem path name of
        None \<Rightarrow> Inr (Some ip, name, st)
      | Some (path1, name1) \<Rightarrow>
          (case ilock st ip of
             Inl e \<Rightarrow> Inl e
           | Inr st1 \<Rightarrow>
               if m_type (ino st1 ip) \<noteq> T_DIR then
                 (case iunlockput st1 ip of
                    Inl e \<Rightarrow> Inl e
                  | Inr st2 \<Rightarrow> Inr (None, name1, st2))
               else if parent \<noteq> 0 \<and> ch path1 = 0 then
                 (case iunlock st1 ip of
                    Inl e \<Rightarrow> Inl e
                  | Inr st2 \<Rightarrow> Inr (Some ip, name1, st2))
               else
                 (case dirlookup st1 ip name1 of
                    Inl e \<Rightarrow> Inl e
                  | Inr (None, st2) \<Rightarrow>
                      (case iunlockput st2 ip of
                         Inl e \<Rightarrow> Inl e
                       | Inr st3 \<Rightarrow> Inr (None, name1, st3))
                  | Inr (Some (next, off), st2) \<Rightarrow>
                      (case iunlockput st2 ip of
                         Inl e \<Rightarrow> Inl e
                       | Inr st3 \<Rightarrow> namex_loop st3 next path1 parent name1))))"
  by pat_completeness auto
termination
proof (relation "measure (\<lambda>(st, ip, path, parent, name). length path)", goal_cases)
  case 1
  show ?case by simp
next
  case (2 st ip path parent name x2 path1 name1)
  have a: "length (skip_slashes p) \<le> length p" for p
    by (induction p) auto
  have b: "length (skip_name p) \<le> length p" for p
    by (induction p) auto
  have c: "ch p \<noteq> 0 \<Longrightarrow> skip_slashes p = p \<Longrightarrow> length (skip_name p) < length p" for p
  proof (cases p)
    case Nil
    assume "ch p \<noteq> 0"
    with Nil show ?thesis by (simp add: ch_def)
  next
    case (Cons d ds)
    assume "ch p \<noteq> 0" and "skip_slashes p = p"
    with Cons a [of ds] b [of ds] show ?thesis
      by (auto simp: ch_def NUL_def split: if_splits)
  qed
  have d: "skip_slashes (skip_slashes p) = skip_slashes p" for p
    by (induction p) auto
  from 2 have "ch (skip_slashes path) \<noteq> 0"
    and p1: "path1 = skip_slashes (skip_name (skip_slashes path))"
    by (auto simp: skipelem_def Let_def split: if_splits)
  with c [of "skip_slashes path"] d [of path]
  have "length (skip_name (skip_slashes path)) < length (skip_slashes path)"
    by simp
  with a [of path] a [of "skip_name (skip_slashes path)"] p1 show ?case
    by simp
qed

declare namex_loop.simps [simp del]

definition namex ::
  "fsys \<Rightarrow> nat \<Rightarrow> string \<Rightarrow> int \<Rightarrow> string \<Rightarrow> stop + (nat option \<times> string \<times> fsys)" where
  "namex st cwd path parent name =
     (if ch path = of_char CHR ''/'' then
        (case iget st ROOTDEV ROOTINO of
           Inl e \<Rightarrow> Inl e
         | Inr (ip, st1) \<Rightarrow> namex_loop st1 ip path parent name)
      else
        (case idup st cwd of (ip, st1) \<Rightarrow> namex_loop st1 ip path parent name))"

definition nameiparent ::
  "fsys \<Rightarrow> nat \<Rightarrow> string \<Rightarrow> string \<Rightarrow> stop + (nat option \<times> string \<times> fsys)" where
  "nameiparent st cwd path name = namex st cwd path 1 name"

text \<open>
  \<^verbatim>\<open>sys_unlink\<close>.  \<open>arg\<close> is what \<^verbatim>\<open>argstr(0, &path)\<close> yields (\<open>None\<close> when it fails), \<open>cwd\<close>
  the current directory of the caller and \<open>name0\<close> the content of the local array
  \<^verbatim>\<open>name\<close> on entry.  \<open>unlink_bad\<close> is the code at the label \<^verbatim>\<open>bad\<close>.
\<close>

definition unlink_bad :: "fsys \<Rightarrow> nat \<Rightarrow> stop + (int \<times> fsys)" where
  "unlink_bad st dp =
     (case iunlockput st dp of Inl e \<Rightarrow> Inl e | Inr st1 \<Rightarrow> Inr (- 1, st1))"

definition sys_unlink :: "fsys \<Rightarrow> nat \<Rightarrow> string option \<Rightarrow> string \<Rightarrow> stop + (int \<times> fsys)" where
  "sys_unlink st cwd arg name0 =
     (case arg of
        None \<Rightarrow> Inr (- 1, st)
      | Some path \<Rightarrow>
     (case nameiparent st cwd path name0 of
        Inl e \<Rightarrow> Inl e
      | Inr (None, name, st1) \<Rightarrow> Inr (- 1, st1)
      | Inr (Some dp, name, st1) \<Rightarrow>
     (case ilock st1 dp of
        Inl e \<Rightarrow> Inl e
      | Inr st2 \<Rightarrow>
          if namecmp name ''.'' = 0 \<or> namecmp name ''..'' = 0 then unlink_bad st2 dp
          else
     (case dirlookup st2 dp name of
        Inl e \<Rightarrow> Inl e
      | Inr (None, st3) \<Rightarrow> unlink_bad st3 dp
      | Inr (Some (ip, off), st3) \<Rightarrow>
     (case ilock st3 ip of
        Inl e \<Rightarrow> Inl e
      | Inr st4 \<Rightarrow>
          if m_nlink (ino st4 ip) < 1 then Inl (Panic ''unlink: nlink < 1'')
          else
     (case (if m_type (ino st4 ip) = T_DIR then isdirempty st4 ip else Inr 1) of
        Inl e \<Rightarrow> Inl e
      | Inr emp \<Rightarrow>
          if m_type (ino st4 ip) = T_DIR \<and> emp = 0 then
            (case iunlockput st4 ip of Inl e \<Rightarrow> Inl e | Inr st5 \<Rightarrow> unlink_bad st5 dp)
          else
     (case writei_de st4 dp off dirent_zero of
        (n, st5) \<Rightarrow>
          if n \<noteq> int sizeof_dirent then Inl (Panic ''unlink: writei'')
          else
            (let st6 = (if m_type (ino st5 ip) = T_DIR
                        then iupdate_d (upd st5 dp (\<lambda>i. i\<lparr>m_nlink := dec_short (m_nlink i)\<rparr>)) dp
                        else st5)
             in
     (case iunlockput st6 dp of
        Inl e \<Rightarrow> Inl e
      | Inr st7 \<Rightarrow>
          (let st8 = iupdate_d (upd st7 ip (\<lambda>i. i\<lparr>m_nlink := dec_short (m_nlink i)\<rparr>)) ip
           in
     (case iunlockput st8 ip of
        Inl e \<Rightarrow> Inl e
      | Inr st9 \<Rightarrow> Inr (0, st9))))))))))))"

text \<open>
  Conditions on a state of the inode layer.  No sleeplock is held (\<open>unlocked\<close>); a cached
  inode that is referenced and valid carries the type, link count and size of its disk
  inode (\<open>in_sync\<close>); a directory's size covers exactly its stored entries (\<open>whole\<close>).
  \<open>dir_found es name j\<close> says that entry \<open>j\<close> is the first live entry of \<open>es\<close> named
  \<open>name\<close>, and \<open>has_entries es\<close> that some entry after the first two is live.
\<close>

definition unlocked :: "fsys \<Rightarrow> bool" where
  "unlocked s = (\<forall>k < length (icache s). \<not> m_locked (ino s k))"

definition in_sync :: "fsys \<Rightarrow> bool" where
  "in_sync s =
     (\<forall>k < length (icache s).
        m_ref (ino s k) > 0 \<and> m_valid (ino s k) \<noteq> 0 \<longrightarrow>
          m_type (ino s k) = dn_type (dinodes s (m_inum (ino s k))) \<and>
          m_nlink (ino s k) = dn_nlink (dinodes s (m_inum (ino s k))) \<and>
          m_size (ino s k) = dn_size (dinodes s (m_inum (ino s k))))"

definition has_free_slot :: "fsys \<Rightarrow> bool" where
  "has_free_slot s = (\<exists>k < length (icache s). m_ref (ino s k) = 0)"

definition whole :: "dinode \<Rightarrow> bool" where
  "whole d = (dn_size d = sizeof_dirent * length (dn_data d))"

definition dir_found :: "dirent list \<Rightarrow> string \<Rightarrow> nat \<Rightarrow> bool" where
  "dir_found es name j =
     (j < length es \<and> de_inum (es ! j) \<noteq> 0 \<and> namecmp name (de_name (es ! j)) = 0 \<and>
      (\<forall>i < j. de_inum (es ! i) = 0 \<or> namecmp name (de_name (es ! i)) \<noteq> 0))"

definition has_entries :: "dirent list \<Rightarrow> bool" where
  "has_entries es = (\<exists>k < length es. 2 \<le> k \<and> de_inum (es ! k) \<noteq> 0)"

text \<open>
  A small file system: the root directory (inode 1) holds the directory \<^verbatim>\<open>a\<close> (inode 2,
  with the file \<^verbatim>\<open>g\<close>, inode 4), the file \<^verbatim>\<open>f\<close> (inode 3) and the empty directory \<^verbatim>\<open>e\<close>
  (inode 5).  The cache has \<^verbatim>\<open>NINODE\<close> slots, of which slot 0 holds the root, the current
  directory of the caller.
\<close>

definition NINODE :: nat where
  "NINODE = 50"

definition mkde :: "nat \<Rightarrow> string \<Rightarrow> dirent" where
  "mkde n s = \<lparr>de_inum = n, de_name = take DIRSIZ (s @ replicate DIRSIZ NUL)\<rparr>"

definition mkdir_d :: "int \<Rightarrow> dirent list \<Rightarrow> dinode" where
  "mkdir_d n es =
     \<lparr>dn_type = T_DIR, dn_nlink = n, dn_size = sizeof_dirent * length es, dn_data = es\<rparr>"

definition mkfile_d :: "nat \<Rightarrow> dinode" where
  "mkfile_d sz = \<lparr>dn_type = T_FILE, dn_nlink = 1, dn_size = sz, dn_data = []\<rparr>"

definition disk_tree :: "nat \<Rightarrow> dinode" where
  "disk_tree =
     (\<lambda>n. \<lparr>dn_type = 0, dn_nlink = 0, dn_size = 0, dn_data = []\<rparr>)
       (1 := mkdir_d 3 [mkde 1 ''.'', mkde 1 ''..'', mkde 2 ''a'', mkde 3 ''f'', mkde 5 ''e''],
        2 := mkdir_d 1 [mkde 2 ''.'', mkde 1 ''..'', mkde 4 ''g''],
        3 := mkfile_d 100,
        4 := mkfile_d 7,
        5 := mkdir_d 1 [mkde 5 ''.'', mkde 1 ''..''])"

definition inode_free :: minode where
  "inode_free = \<lparr>m_dev = 0, m_inum = 0, m_ref = 0, m_locked = False, m_valid = 0,
                  m_type = 0, m_nlink = 0, m_size = 0\<rparr>"

definition fs_tree :: fsys where
  "fs_tree =
     \<lparr>icache = (replicate NINODE inode_free)
                 [0 := \<lparr>m_dev = ROOTDEV, m_inum = ROOTINO, m_ref = 1, m_locked = False,
                        m_valid = 1, m_type = T_DIR, m_nlink = 3, m_size = 5 * sizeof_dirent\<rparr>],
      dinodes = disk_tree\<rparr>"

definition name_junk :: string where
  "name_junk = replicate DIRSIZ (CHR ''?'')"

text \<open>
  \<open>holds_locked s k n\<close>: slot \<open>k\<close> of the cache is locked and referenced, and holds a loaded
  copy of inode \<open>n\<close> that agrees with the disk.
\<close>

definition holds_locked :: "fsys \<Rightarrow> nat \<Rightarrow> nat \<Rightarrow> bool" where
  "holds_locked s k n =
     (k < length (icache s) \<and> m_locked (ino s k) \<and> 1 \<le> m_ref (ino s k) \<and>
      m_valid (ino s k) \<noteq> 0 \<and> m_inum (ino s k) = n \<and>
      m_type (ino s k) = dn_type (dinodes s n) \<and>
      m_nlink (ino s k) = dn_nlink (dinodes s n) \<and>
      m_size (ino s k) = dn_size (dinodes s n))"

text \<open>
  \<open>parent_ready s dp\<close>: the state in which path resolution has returned the parent \<open>dp\<close>,
  referenced and not locked, a directory on disk with at least one link.
  \<open>names_target s P name j t\<close>: entry \<open>j\<close> of directory \<open>P\<close> is the first one named \<open>name\<close>,
  and it names an allocated inode \<open>t\<close>, other than \<open>P\<close>, with at least one link.
\<close>

definition parent_ready :: "fsys \<Rightarrow> nat \<Rightarrow> bool" where
  "parent_ready s dp =
     (dp < length (icache s) \<and> 1 \<le> m_ref (ino s dp) \<and>
      unlocked s \<and> in_sync s \<and> has_free_slot s \<and>
      dn_type (dinodes s (m_inum (ino s dp))) = T_DIR \<and>
      whole (dinodes s (m_inum (ino s dp))) \<and>
      dn_size (dinodes s (m_inum (ino s dp))) \<le> MAXFILE * BSIZE \<and>
      1 \<le> dn_nlink (dinodes s (m_inum (ino s dp))))"

definition names_target :: "fsys \<Rightarrow> nat \<Rightarrow> string \<Rightarrow> nat \<Rightarrow> nat \<Rightarrow> bool" where
  "names_target s P name j t =
     (dir_found (dn_data (dinodes s P)) name j \<and> t = de_inum (dn_data (dinodes s P) ! j) \<and>
      t \<noteq> P \<and> dn_type (dinodes s t) \<noteq> 0 \<and> 1 \<le> dn_nlink (dinodes s t) \<and>
      (dn_type (dinodes s t) = T_DIR \<longrightarrow> whole (dinodes s t)))"

definition resolved :: "stop + (nat option \<times> string \<times> fsys) \<Rightarrow> fsys" where
  "resolved r = (case r of Inr (ip, name, s) \<Rightarrow> s | Inl e \<Rightarrow> fs_tree)"

section \<open>Properties\<close>

subsection \<open>Log absorption\<close>

lemma log_scan_miss:
  "0 \<le> i \<Longrightarrow> i \<le> lh_n h \<Longrightarrow> log_scan h bno i = lh_n h \<longleftrightarrow>
     (\<forall>j. i \<le> j \<and> j < lh_n h \<longrightarrow> lh_block h ! nat j \<noteq> bno)"
proof (induction h bno i rule: log_scan.induct)
  case (1 h bno i)
  show ?case
  proof (cases "i < lh_n h")
    case lt: True
    show ?thesis
    proof (cases "lh_block h ! nat i = bno")
      case True
      with lt have "log_scan h bno i = i" by (subst log_scan.simps) simp
      with lt True show ?thesis by auto
    next
      case False
      with lt have eq: "log_scan h bno i = log_scan h bno (i + 1)"
        by (subst log_scan.simps) simp
      have ih: "log_scan h bno (i + 1) = lh_n h \<longleftrightarrow>
         (\<forall>j. i + 1 \<le> j \<and> j < lh_n h \<longrightarrow> lh_block h ! nat j \<noteq> bno)"
        using 1 lt False by simp
      have "(\<forall>j. i \<le> j \<and> j < lh_n h \<longrightarrow> lh_block h ! nat j \<noteq> bno) \<longleftrightarrow>
            (\<forall>j. i + 1 \<le> j \<and> j < lh_n h \<longrightarrow> lh_block h ! nat j \<noteq> bno)"
      proof
        assume "\<forall>j. i \<le> j \<and> j < lh_n h \<longrightarrow> lh_block h ! nat j \<noteq> bno"
        then show "\<forall>j. i + 1 \<le> j \<and> j < lh_n h \<longrightarrow> lh_block h ! nat j \<noteq> bno" by auto
      next
        assume a: "\<forall>j. i + 1 \<le> j \<and> j < lh_n h \<longrightarrow> lh_block h ! nat j \<noteq> bno"
        show "\<forall>j. i \<le> j \<and> j < lh_n h \<longrightarrow> lh_block h ! nat j \<noteq> bno"
        proof (intro allI impI)
          fix j assume j: "i \<le> j \<and> j < lh_n h"
          show "lh_block h ! nat j \<noteq> bno"
          proof (cases "j = i")
            case True with False show ?thesis by simp
          next
            case False with j a show ?thesis by auto
          qed
        qed
      qed
      with eq ih show ?thesis by simp
    qed
  next
    case False
    then have "log_scan h bno i = i" by (subst log_scan.simps) simp
    with 1 False show ?thesis by auto
  qed
qed

lemma log_scan_absent_iff:
  assumes "0 \<le> lh_n h" "nat (lh_n h) \<le> length (lh_block h)"
  shows "log_scan h bno 0 = lh_n h \<longleftrightarrow> bno \<notin> set (lh_entries h)"
proof -
  have "log_scan h bno 0 = lh_n h \<longleftrightarrow>
     (\<forall>j. 0 \<le> j \<and> j < lh_n h \<longrightarrow> lh_block h ! nat j \<noteq> bno)"
    using assms by (intro log_scan_miss) auto
  also have "\<dots> \<longleftrightarrow> (\<forall>k < nat (lh_n h). lh_block h ! k \<noteq> bno)"
  proof
    assume a: "\<forall>j. 0 \<le> j \<and> j < lh_n h \<longrightarrow> lh_block h ! nat j \<noteq> bno"
    show "\<forall>k < nat (lh_n h). lh_block h ! k \<noteq> bno"
    proof (intro allI impI)
      fix k assume "k < nat (lh_n h)"
      then have "0 \<le> int k \<and> int k < lh_n h" by auto
      with a have "lh_block h ! nat (int k) \<noteq> bno" by blast
      then show "lh_block h ! k \<noteq> bno" by simp
    qed
  next
    assume a: "\<forall>k < nat (lh_n h). lh_block h ! k \<noteq> bno"
    show "\<forall>j. 0 \<le> j \<and> j < lh_n h \<longrightarrow> lh_block h ! nat j \<noteq> bno"
      using a by auto
  qed
  also have "\<dots> \<longleftrightarrow> bno \<notin> set (lh_entries h)"
    using assms by (auto simp: lh_entries_def in_set_conv_nth)
  finally show ?thesis .
qed


lemma log_write_step:
  assumes wf: "lh_wf (log_lh lg)" and n0: "0 \<le> lh_n (log_lh lg)"
    and ok: "log_write lg b = Inr (lg', b')"
  shows "lh_wf (log_lh lg') \<and> 0 \<le> lh_n (log_lh lg') \<and>
         lh_entries (log_lh lg') =
           (if buf_blockno b \<in> set (lh_entries (log_lh lg)) then lh_entries (log_lh lg)
            else lh_entries (log_lh lg) @ [buf_blockno b]) \<and>
         lh_n (log_lh lg') =
           lh_n (log_lh lg) + (if buf_blockno b \<in> set (lh_entries (log_lh lg)) then 0 else 1)"
proof -
  let ?h = "log_lh lg"
  from ok have small: "lh_n ?h < int LOGSIZE"
    by (auto simp: log_write_def split: if_splits)
  with wf n0 have len: "nat (lh_n ?h) < length (lh_block ?h)"
    by (simp add: lh_wf_def)
  then have iff: "log_scan ?h (buf_blockno b) 0 = lh_n ?h \<longleftrightarrow>
      buf_blockno b \<notin> set (lh_entries ?h)"
    using n0 by (intro log_scan_absent_iff) auto
  show ?thesis
  proof (cases "buf_blockno b \<in> set (lh_entries ?h)")
    case True
    with iff have "log_scan ?h (buf_blockno b) 0 \<noteq> lh_n ?h" by simp
    with ok have "log_lh lg' = ?h"
      by (auto simp: log_write_def Let_def split: if_splits)
    with True wf n0 show ?thesis by simp
  next
    case False
    with iff have "log_scan ?h (buf_blockno b) 0 = lh_n ?h" by simp
    with ok have h': "log_lh lg' =
        ?h\<lparr>lh_block := (lh_block ?h)[nat (lh_n ?h) := buf_blockno b], lh_n := lh_n ?h + 1\<rparr>"
      by (auto simp: log_write_def Let_def split: if_splits)
    have "nat (lh_n ?h + 1) = Suc (nat (lh_n ?h))" using n0 by simp
    then have "lh_entries (log_lh lg') = lh_entries ?h @ [buf_blockno b]"
      using len by (simp add: h' lh_entries_def take_Suc_conv_app_nth)
    with False wf n0 h' show ?thesis by (simp add: lh_wf_def)
  qed
qed

lemma log_writes_entries:
  assumes "lh_wf (log_lh lg)" "0 \<le> lh_n (log_lh lg)"
    and "nat (lh_n (log_lh lg)) \<le> length (lh_block (log_lh lg))"
    and "distinct (lh_entries (log_lh lg))"
    and "log_writes lg bs = Inr lg'"
  shows "lh_wf (log_lh lg') \<and> 0 \<le> lh_n (log_lh lg') \<and>
         distinct (lh_entries (log_lh lg')) \<and>
         set (lh_entries (log_lh lg')) = set (lh_entries (log_lh lg)) \<union> buf_blockno ` set bs \<and>
         lh_n (log_lh lg') = int (length (lh_entries (log_lh lg')))"
  using assms
proof (induction bs arbitrary: lg)
  case Nil
  then show ?case by (auto simp: lh_entries_def)
next
  case (Cons b bs)
  from Cons.prems(5) obtain lg1 b1 where
    w: "log_write lg b = Inr (lg1, b1)" and rest: "log_writes lg1 bs = Inr lg'"
    by (auto split: sum.splits)
  note st = log_write_step [OF Cons.prems(1) Cons.prems(2) w]
  have d1: "distinct (lh_entries (log_lh lg1))"
    using st Cons.prems(4) by (auto split: if_splits)
  have l1: "nat (lh_n (log_lh lg1)) \<le> length (lh_block (log_lh lg1))"
    using st w by (auto simp: lh_wf_def log_write_def split: if_splits)
  have ih: "lh_wf (log_lh lg') \<and> 0 \<le> lh_n (log_lh lg') \<and>
         distinct (lh_entries (log_lh lg')) \<and>
         set (lh_entries (log_lh lg')) = set (lh_entries (log_lh lg1)) \<union> buf_blockno ` set bs \<and>
         lh_n (log_lh lg') = int (length (lh_entries (log_lh lg')))"
    using Cons.IH [of lg1] st d1 l1 rest by blast
  have "set (lh_entries (log_lh lg1)) = set (lh_entries (log_lh lg)) \<union> {buf_blockno b}"
    using st by (auto split: if_splits)
  with ih show ?case by auto
qed

lemma count_list_distinct:
  "distinct xs \<Longrightarrow> x \<in> set xs \<Longrightarrow> count_list xs x = 1"
  by (induction xs) auto

text \<open>
  Claim C7 (log absorption).  In a transaction that starts from an empty staged header,
  after any sequence of calls of \<^verbatim>\<open>log_write\<close> that all return, every block number
  written, however often, has exactly one entry in \<^verbatim>\<open>block[0 .. n-1]\<close>; the count
  \<^verbatim>\<open>n\<close> is the number of different block numbers written; and one more
  \<^verbatim>\<open>log_write\<close> raises \<^verbatim>\<open>n\<close> by one exactly when its block number is not yet
  in the header, and leaves it unchanged otherwise.
\<close>

theorem log_write_absorption:
  assumes wf: "lh_wf (log_lh lg)" and empty: "lh_n (log_lh lg) = 0"
    and run: "log_writes lg bs = Inr lg'"
  shows "(\<forall>b \<in> set bs. count_list (lh_entries (log_lh lg')) (buf_blockno b) = 1) \<and>
         lh_n (log_lh lg') = int (card (buf_blockno ` set bs)) \<and>
         (\<forall>b lg1 b1. log_write lg' b = Inr (lg1, b1) \<longrightarrow>
            lh_n (log_lh lg1) =
              lh_n (log_lh lg') + (if buf_blockno b \<in> buf_blockno ` set bs then 0 else 1))"
proof -
  have e0: "lh_entries (log_lh lg) = []" using empty by (simp add: lh_entries_def)
  have inv: "lh_wf (log_lh lg') \<and> 0 \<le> lh_n (log_lh lg') \<and>
         distinct (lh_entries (log_lh lg')) \<and>
         set (lh_entries (log_lh lg')) = set (lh_entries (log_lh lg)) \<union> buf_blockno ` set bs \<and>
         lh_n (log_lh lg') = int (length (lh_entries (log_lh lg')))"
    using wf empty run e0 by (intro log_writes_entries) auto
  then have d: "distinct (lh_entries (log_lh lg'))"
    and s: "set (lh_entries (log_lh lg')) = buf_blockno ` set bs"
    and n: "lh_n (log_lh lg') = int (length (lh_entries (log_lh lg')))"
    using e0 by auto
  have one: "\<forall>b \<in> set bs. count_list (lh_entries (log_lh lg')) (buf_blockno b) = 1"
    using d s by (simp add: count_list_distinct)
  have card: "lh_n (log_lh lg') = int (card (buf_blockno ` set bs))"
    using d s n by (metis distinct_card)
  have step: "\<forall>b lg1 b1. log_write lg' b = Inr (lg1, b1) \<longrightarrow>
            lh_n (log_lh lg1) =
              lh_n (log_lh lg') + (if buf_blockno b \<in> buf_blockno ` set bs then 0 else 1)"
  proof (intro allI impI)
    fix b lg1 b1 assume w: "log_write lg' b = Inr (lg1, b1)"
    from inv have "lh_wf (log_lh lg')" "0 \<le> lh_n (log_lh lg')" by auto
    from log_write_step [OF this w] s
    show "lh_n (log_lh lg1) =
              lh_n (log_lh lg') + (if buf_blockno b \<in> buf_blockno ` set bs then 0 else 1)"
      by simp
  qed
  from one card step show ?thesis by blast
qed

theorem log_write_absorption_witness:
  "lh_wf (log_lh log0) \<and> lh_n (log_lh log0) = 0 \<and>
   log_writes log0 [mkbuf 7, mkbuf 9, mkbuf 7] = Inr log_final \<and>
   count_list (lh_entries (log_lh log_final)) (buf_blockno (mkbuf 7)) = 1 \<and>
   count_list (lh_entries (log_lh log_final)) (buf_blockno (mkbuf 9)) = 1 \<and>
   lh_n (log_lh log_final) = int (card (buf_blockno ` set [mkbuf 7, mkbuf 9, mkbuf 7]))"
proof -
  have h1: "lh_wf (log_lh log0)" by code_simp
  have h2: "lh_n (log_lh log0) = 0" by code_simp
  have h3: "log_writes log0 [mkbuf 7, mkbuf 9, mkbuf 7] = Inr log_final" by code_simp
  from log_write_absorption [OF h1 h2 h3] h1 h2 h3 show ?thesis by simp
qed

subsection \<open>Block map\<close>



lemma log_room_blocks [simp]: "log_room (d\<lparr>d_blocks := x\<rparr>) k = log_room d k"
  by (simp add: log_room_def)

lemma log_room_bitmap [simp]: "log_room (d\<lparr>d_bitmap := x\<rparr>) k = log_room d k"
  by (simp add: log_room_def)

lemma log_room_inodes [simp]: "log_room (d\<lparr>d_inodes := x\<rparr>) k = log_room d k"
  by (simp add: log_room_def)













lemma length_wr32 [simp]: "length (wr32 blk i v) = length blk"
  by (simp add: wr32_def)

















subsection \<open>\<^verbatim>\<open>wait\<close> of a killed caller\<close>

lemma wait_scan_None:
  "wait_scan ps cur i hk = (None, hk') \<longleftrightarrow>
     (\<forall>p \<in> set ps. p_parent p = Some cur \<longrightarrow> p_state p \<noteq> ZOMBIE) \<and>
     hk' = (hk \<or> (\<exists>p \<in> set ps. p_parent p = Some cur))"
  by (induction ps arbitrary: i hk) auto

text \<open>
  Claim C10.  When the caller's \<^verbatim>\<open>killed\<close> flag is set, it has at least one child and
  none of its children is a zombie, \<^verbatim>\<open>wait\<close> returns \<open>-1\<close> at once, without sleeping
  and without touching the process table, whatever the other processes would have done
  later: the children stay un-reaped.
\<close>

theorem wait_killed_returns_minus_one:
  assumes killed: "p_killed (ptable s ! cur) \<noteq> 0"
    and kids: "children s cur \<noteq> {}"
    and nozombie: "zombie_children s cur = {}"
  shows "wait s cur env = Some (- 1, s)"
proof -
  have "\<forall>p \<in> set (ptable s). p_parent p = Some cur \<longrightarrow> p_state p \<noteq> ZOMBIE"
    using nozombie
    by (auto simp: zombie_children_def children_def in_set_conv_nth)
  moreover have "\<exists>p \<in> set (ptable s). p_parent p = Some cur"
    using kids by (auto simp: children_def)
  ultimately have "wait_scan (ptable s) cur 0 False = (None, True)"
    by (simp add: wait_scan_None)
  with killed have "wait_turn s cur = Returns (- 1) s"
    by (simp add: wait_turn_def)
  then show ?thesis by simp
qed

theorem wait_killed_returns_minus_one_witness:
  "p_killed (ptable ps_killed_parent ! 0) \<noteq> 0 \<and> children ps_killed_parent 0 \<noteq> {} \<and>
   zombie_children ps_killed_parent 0 = {} \<and>
   wait ps_killed_parent 0 [] = Some (- 1, ps_killed_parent)"
proof -
  have h1: "p_killed (ptable ps_killed_parent ! 0) \<noteq> 0"
    by (simp add: ps_killed_parent_def)
  have "1 \<in> children ps_killed_parent 0"
    by (simp add: children_def ps_killed_parent_def)
  then have h2: "children ps_killed_parent 0 \<noteq> {}" by blast
  have h3: "zombie_children ps_killed_parent 0 = {}"
    by (auto simp: zombie_children_def children_def ps_killed_parent_def proc_unused_def
        nth_Cons split: nat.splits)
  from wait_killed_returns_minus_one [OF h1 h2 h3, of "[]"] h1 h2 h3 show ?thesis by simp
qed

subsection \<open>Integer argument fetch\<close>

text \<open>
  Claim C1 does not hold of this code.  \<^verbatim>\<open>fetchint\<close> never returns \<open>-1\<close>: whatever
  the address, it loads the word (or faults).  Below, the caller's first argument slot
  \<open>esp + 4\<close> lies far beyond its size \<open>0x1000\<close>; \<^verbatim>\<open>argint\<close> returns 0 with the
  kernel word found there, and \<^verbatim>\<open>sys_kill\<close> goes on to kill process 7 and returns 0.
\<close>

theorem fetchint_reads_beyond_sz:
  "p_sz (ps_bad_esp ! 0) = 0x1000 \<and>
   p_sz (ps_bad_esp ! 0) \<le> p_esp (ps_bad_esp ! 0) + 4 \<and>
   argint mem_kernel (ps_bad_esp ! 0) 0 = Inr (0, 7) \<and>
   sys_kill mem_kernel ps_bad_esp 0 =
     Inr (0, [ps_bad_esp ! 0, (ps_bad_esp ! 1)\<lparr>p_killed := 1, p_state := RUNNABLE\<rparr>]) \<and>
   (\<forall>mem addr v. fetchint mem addr \<noteq> Inr (- 1, v))"
  by (auto simp: ps_bad_esp_def mem_kernel_def argint_def fetchint_def sys_kill_def
      proc_unused_def split: option.splits)

subsection \<open>\<^verbatim>\<open>pipewrite\<close>\<close>

lemma puts_append: "puts (xs @ ys) = puts xs @ puts ys"
  by (induction xs rule: puts.induct) auto









lemma sleeps_append: "sleeps (xs @ ys) = sleeps xs + sleeps ys"
  by (induction xs rule: sleeps.induct) auto







subsection \<open>The \<^verbatim>\<open>pipe\<close> system call\<close>

lemma pipealloc_fstate0:
  "pipealloc fstate0 None None =
     Inr (0, \<lparr>ftable = [file_free\<lparr>f_type := FD_PIPE, f_ref := 1, f_readable := 1,
                                   f_writable := 0, f_pipe := 0x80400000\<rparr>,
                        file_free\<lparr>f_type := FD_PIPE, f_ref := 1, f_readable := 0,
                                   f_writable := 1, f_pipe := 0x80400000\<rparr>,
                        file_free, file_free],
             pipes = (\<lambda>a. None)(0x80400000 \<mapsto>
                        \<lparr>pi_data = replicate PIPESIZE 1, pi_nread = 0, pi_nwrite = 0,
                         pi_readopen = 1, pi_writeopen = 1\<rparr>),
             fs_kmem = \<lparr>km_end = 0x80110000, km_freelist = [0x80401000]\<rparr>,
             ktrace = [Acq Ftable_lock, Rel Ftable_lock, Acq Ftable_lock, Rel Ftable_lock]\<rparr>)"
  by (simp add: pipealloc_def filealloc_def fstate0_def file_free_def emit_def kalloc_def Let_def)

text \<open>
  Claim C2 does not hold of this code.  The call below succeeds: \<^verbatim>\<open>sys_pipe\<close> returns 0,
  two file slots have been taken and wired to one new pipe, first readable, second
  writable, and a page has left the free list.  But the caller gets nothing to reach
  them by: both words stored in the user's array are descriptor 0, and entry 0 of the
  caller's \<^verbatim>\<open>ofile\<close> is still null, as is every other entry.
\<close>

theorem sys_pipe_returns_no_files:
  "(\<exists>mem' s' p'. sys_pipe mem_pipe_caller fstate0 proc_pipe_caller = Inr (0, mem', s', p') \<and>
      mem' 0x2000 = Some 0 \<and> mem' 0x2004 = Some 0 \<and>
      p_ofile p' = replicate 16 None \<and>
      map f_ref (ftable s') = [1, 1, 0, 0] \<and>
      map f_pipe (ftable s') = [0x80400000, 0x80400000, 0, 0] \<and>
      map f_readable (ftable s') = [1, 0, 0, 0] \<and> map f_writable (ftable s') = [0, 1, 0, 0] \<and>
      pipes s' 0x80400000 \<noteq> None \<and>
      km_freelist (fs_kmem s') = [0x80401000])"
proof -
  have e1: "first_free_fd (take NOFILE (replicate 16 None)) 0 = Some 0" by code_simp
  have e2: "(replicate 16 None)[0 := None] = replicate 16 (None :: nat option)" by code_simp
  have po: "p_ofile proc_pipe_caller = replicate 16 None"
    by (simp add: proc_pipe_caller_def proc_unused_def)
  have "proc_pipe_caller\<lparr>p_ofile := (replicate 16 None)[0 := None]\<rparr> =
      proc_pipe_caller\<lparr>p_ofile := p_ofile proc_pipe_caller\<rparr>"
    by (simp only: e2 po)
  then have "proc_pipe_caller\<lparr>p_ofile := (replicate 16 None)[0 := None]\<rparr> = proc_pipe_caller"
    by simp
  then have fa: "fdalloc proc_pipe_caller None = (0, proc_pipe_caller)"
    unfolding fdalloc_def po e1 by simp
  have ai: "argint mem_pipe_caller proc_pipe_caller 0 = Inr (0, 0x2000)"
    by (simp add: argint_def fetchint_def mem_pipe_caller_def proc_pipe_caller_def)
  have st: "store32 mem_pipe_caller 0x2000 0 = Inr (mem_pipe_caller(0x2000 \<mapsto> 0))"
    "store32 (mem_pipe_caller(0x2000 \<mapsto> 0)) 0x2004 0 =
       Inr (mem_pipe_caller(0x2000 \<mapsto> 0, 0x2004 \<mapsto> 0))"
    by (simp_all add: store32_def mem_pipe_caller_def)
  show ?thesis
    by (simp add: sys_pipe_def pipealloc_fstate0 ai fa st Let_def po file_free_def)
qed

subsection \<open>\<^verbatim>\<open>fileclose\<close> and the file-table lock\<close>

text \<open>
  Claim C4 does not hold of this code.  Closing the last reference to an inode-backed
  file, \<^verbatim>\<open>fileclose\<close> acquires \<^verbatim>\<open>ftable.lock\<close>, calls \<^verbatim>\<open>begin_op\<close>, \<^verbatim>\<open>iput\<close> and
  \<^verbatim>\<open>end_op\<close>, and only then releases the lock: each of the three calls is made with
  \<^verbatim>\<open>ftable.lock\<close> held.
\<close>

theorem fileclose_calls_log_under_ftable_lock:
  "(\<exists>s'. fileclose fstate_inode (Some 0) = Inr s' \<and>
      ktrace s' = [Acq Ftable_lock, Call ''begin_op'' 0, Call ''iput'' 0x80112000,
                   Call ''end_op'' 0, Rel Ftable_lock] \<and>
      calls_under_locks [] (ktrace s') =
        [(''begin_op'', [Ftable_lock]), (''iput'', [Ftable_lock]), (''end_op'', [Ftable_lock])] \<and>
      f_ref (ftable s' ! 0) = 0 \<and> f_type (ftable s' ! 0) = FD_NONE)"
  by (simp add: fileclose_def fstate_inode_def emit_def Let_def)

subsection \<open>Spinlocks keep interrupts off\<close>

lemma filter_length_update:
  "i < length xs \<Longrightarrow>
   length (filter P (xs[i := y])) + (if P (xs ! i) then 1 else 0) =
     length (filter P xs) + (if P y then 1 else 0)"
proof (induction xs arbitrary: i)
  case Nil
  then show ?case by simp
next
  case (Cons x xs)
  show ?case
  proof (cases i)
    case 0
    then show ?thesis by simp
  next
    case (Suc j)
    with Cons.prems have "j < length xs" by simp
    from Cons.IH [OF this] Suc show ?thesis by simp
  qed
qed

lemma held_count_update:
  assumes "l < length (locks m)" "locks m' = (locks m)[l := lk']"
  shows "int (held_count m' c) =
     int (held_count m c) - (if held_by c (locks m ! l) then 1 else 0) +
     (if held_by c lk' then 1 else 0)"
proof -
  have "held_count m' c + (if held_by c (locks m ! l) then 1 else 0) =
      held_count m c + (if held_by c lk' then 1 else 0)"
    using filter_length_update [OF assms(1), of "held_by c" lk'] assms(2)
    by (simp add: held_count_def)
  then show ?thesis by (simp split: if_splits)
qed

lemma held_count_pos:
  assumes "l < length (locks m)" "held_by c (locks m ! l)"
  shows "1 \<le> held_count m c"
proof -
  have "locks m ! l \<in> set (filter (held_by c) (locks m))" using assms by simp
  then have "filter (held_by c) (locks m) \<noteq> []" by (metis empty_iff empty_set)
  then show ?thesis by (simp add: held_count_def Suc_le_eq)
qed

lemma pushcli_simps [simp]:
  "ncli (pushcli c) = ncli c + 1"
  "eflags_if (pushcli c) = False"
  "intena (pushcli c) = (if ncli c = 0 then (if eflags_if c then FL_IF else 0) else intena c)"
  by (simp_all add: pushcli_def Let_def)

lemma popcli_pushcli:
  assumes "0 \<le> ncli c" "0 < ncli c \<longrightarrow> \<not> eflags_if c"
  shows "\<exists>c2. popcli (pushcli c) = Inr c2 \<and> ncli c2 = ncli c \<and> eflags_if c2 = eflags_if c"
  using assms by (auto simp: popcli_def Let_def FL_IF_def)

lemma holding_ok:
  assumes "0 \<le> ncli (cpus m c)" "0 < ncli (cpus m c) \<longrightarrow> \<not> eflags_if (cpus m c)"
  shows "\<exists>c2. holding c l m = Inr (held_by c (locks m ! l), m\<lparr>cpus := (cpus m)(c := c2)\<rparr>) \<and>
           ncli c2 = ncli (cpus m c) \<and> eflags_if c2 = eflags_if (cpus m c)"
proof -
  from popcli_pushcli [OF assms] obtain c2 where
    "popcli (pushcli (cpus m c)) = Inr c2" "ncli c2 = ncli (cpus m c)"
    "eflags_if c2 = eflags_if (cpus m c)" by blast
  then show ?thesis by (auto simp: holding_def Let_def held_by_def)
qed

lemma depth_ok_cpu:
  assumes "depth_ok m"
  shows "0 \<le> ncli (cpus m c)" "0 < ncli (cpus m c) \<longrightarrow> \<not> eflags_if (cpus m c)"
proof -
  from assms have "int (held_count m c) + (if spinning m c = None then 0 else 1) \<le> ncli (cpus m c)"
    and b: "0 < ncli (cpus m c) \<longrightarrow> \<not> eflags_if (cpus m c)"
    by (simp_all add: depth_ok_def)
  then show "0 \<le> ncli (cpus m c)" by (simp split: if_splits)
  from b show "0 < ncli (cpus m c) \<longrightarrow> \<not> eflags_if (cpus m c)" .
qed

lemma depth_okI:
  assumes "\<And>c. int (held_count m c) + (if spinning m c = None then 0 else 1) \<le> ncli (cpus m c)"
    and "\<And>c. 0 < ncli (cpus m c) \<Longrightarrow> \<not> eflags_if (cpus m c)"
    and "\<And>c l. spinning m c = Some l \<Longrightarrow> l < length (locks m)"
  shows "depth_ok m"
  using assms by (simp add: depth_ok_def)

lemma depth_okD:
  assumes "depth_ok m"
  shows "int (held_count m c) + (if spinning m c = None then 0 else 1) \<le> ncli (cpus m c)"
    and "0 < ncli (cpus m c) \<Longrightarrow> \<not> eflags_if (cpus m c)"
    and "spinning m c = Some l \<Longrightarrow> l < length (locks m)"
  using assms by (simp_all add: depth_ok_def)

lemma xchg_turn_depth_ok:
  assumes l: "l < length (locks m)"
    and others: "\<And>c'. c' \<noteq> c \<Longrightarrow>
        int (held_count m c') + (if spinning m c' = None then 0 else 1) \<le> ncli (cpus m c')"
    and mine: "int (held_count m c) + 1 \<le> ncli (cpus m c)"
    and cli: "\<And>c'. 0 < ncli (cpus m c') \<Longrightarrow> \<not> eflags_if (cpus m c')"
    and spin: "\<And>c' l'. c' \<noteq> c \<Longrightarrow> spinning m c' = Some l' \<Longrightarrow> l' < length (locks m)"
  shows "depth_ok (xchg_turn c l m)"
proof (cases "locked (locks m ! l) = 0")
  case True
  let ?lk = "(locks m ! l)\<lparr>locked := 1, lk_cpu := Some c\<rparr>"
  let ?m = "m\<lparr>locks := (locks m)[l := ?lk], spinning := (spinning m)(c := None)\<rparr>"
  have eq: "xchg_turn c l m = ?m" using True by (simp add: xchg_turn_def)
  have hc: "\<And>c'. int (held_count ?m c') = int (held_count m c') + (if c' = c then 1 else 0)"
  proof -
    fix c'
    have "\<not> held_by c' (locks m ! l)" using True by (simp add: held_by_def)
    moreover have "held_by c' ?lk \<longleftrightarrow> c' = c" by (auto simp: held_by_def)
    ultimately show "int (held_count ?m c') = int (held_count m c') + (if c' = c then 1 else 0)"
      using held_count_update [OF l, of ?m ?lk c'] by simp
  qed
  show ?thesis unfolding eq
  proof (rule depth_okI)
    fix c'
    show "int (held_count ?m c') + (if spinning ?m c' = None then 0 else 1) \<le> ncli (cpus ?m c')"
      using hc [of c'] others [of c'] mine by (cases "c' = c") simp_all
  next
    fix c' assume "0 < ncli (cpus ?m c')"
    then show "\<not> eflags_if (cpus ?m c')" using cli [of c'] by simp
  next
    fix c' l' assume "spinning ?m c' = Some l'"
    then show "l' < length (locks ?m)" using spin [of c' l'] by (cases "c' = c") simp_all
  qed
next
  case False
  let ?lk = "(locks m ! l)\<lparr>locked := 1\<rparr>"
  let ?m = "m\<lparr>locks := (locks m)[l := ?lk], spinning := (spinning m)(c := Some l)\<rparr>"
  have eq: "xchg_turn c l m = ?m" using False by (simp add: xchg_turn_def)
  have hc: "\<And>c'. int (held_count ?m c') = int (held_count m c')"
  proof -
    fix c'
    have "held_by c' ?lk \<longleftrightarrow> held_by c' (locks m ! l)" using False by (simp add: held_by_def)
    then show "int (held_count ?m c') = int (held_count m c')"
      using held_count_update [OF l, of ?m ?lk c'] by simp
  qed
  show ?thesis unfolding eq
  proof (rule depth_okI)
    fix c'
    show "int (held_count ?m c') + (if spinning ?m c' = None then 0 else 1) \<le> ncli (cpus ?m c')"
      using hc [of c'] others [of c'] mine by (cases "c' = c") simp_all
  next
    fix c' assume "0 < ncli (cpus ?m c')"
    then show "\<not> eflags_if (cpus ?m c')" using cli [of c'] by simp
  next
    fix c' l' assume "spinning ?m c' = Some l'"
    then show "l' < length (locks ?m)" using spin [of c' l'] l by (cases "c' = c") simp_all
  qed
qed

lemma acquire_depth_ok:
  assumes ok: "depth_ok m" and l: "l < length (locks m)" and ns: "spinning m c = None"
    and res: "acquire c l m = Inr m'"
  shows "depth_ok m'"
proof -
  let ?m1 = "m\<lparr>cpus := (cpus m)(c := pushcli (cpus m c))\<rparr>"
  have n0: "0 \<le> ncli (cpus m c)" using ok by (rule depth_ok_cpu)
  have "0 \<le> ncli (cpus ?m1 c)" "0 < ncli (cpus ?m1 c) \<longrightarrow> \<not> eflags_if (cpus ?m1 c)"
    using n0 by simp_all
  from holding_ok [OF this, of l] obtain c2 where
    h: "holding c l ?m1 = Inr (held_by c (locks ?m1 ! l), ?m1\<lparr>cpus := (cpus ?m1)(c := c2)\<rparr>)"
    and n2: "ncli c2 = ncli (cpus ?m1 c)" and i2: "eflags_if c2 = eflags_if (cpus ?m1 c)"
    by blast
  let ?m2 = "?m1\<lparr>cpus := (cpus ?m1)(c := c2)\<rparr>"
  from res h have nh: "\<not> held_by c (locks m ! l)" and m': "m' = xchg_turn c l ?m2"
    by (auto simp: acquire_def Let_def split: if_splits)
  have hc: "\<And>c'. held_count ?m2 c' = held_count m c'" by (simp add: held_count_def)
  show ?thesis unfolding m'
  proof (rule xchg_turn_depth_ok)
    show "l < length (locks ?m2)" using l by simp
  next
    fix c' assume "c' \<noteq> c"
    then show "int (held_count ?m2 c') + (if spinning ?m2 c' = None then 0 else 1)
        \<le> ncli (cpus ?m2 c')"
      using depth_okD(1) [OF ok, of c'] hc [of c'] by simp
  next
    show "int (held_count ?m2 c) + 1 \<le> ncli (cpus ?m2 c)"
      using depth_okD(1) [OF ok, of c] ns n2 hc [of c] by simp
  next
    fix c' assume "0 < ncli (cpus ?m2 c')"
    then show "\<not> eflags_if (cpus ?m2 c')"
      using depth_okD(2) [OF ok, of c'] i2 by (cases "c' = c") simp_all
  next
    fix c' l' assume "c' \<noteq> c" "spinning ?m2 c' = Some l'"
    then show "l' < length (locks ?m2)" using depth_okD(3) [OF ok, of c' l'] by simp
  qed
qed

lemma retry_depth_ok:
  assumes ok: "depth_ok m" and sp: "spinning m c = Some l"
  shows "depth_ok (xchg_turn c l m)"
proof (rule xchg_turn_depth_ok)
  show l: "l < length (locks m)" using depth_okD(3) [OF ok sp] .
  have one: "int (held_count m c) + 1 \<le> ncli (cpus m c)"
    using depth_okD(1) [OF ok, of c] sp by simp
  then show "int (held_count m c) + 1 \<le> ncli (cpus m c)" .
next
  fix c' assume "c' \<noteq> c"
  then show "int (held_count m c') + (if spinning m c' = None then 0 else 1) \<le> ncli (cpus m c')"
    using depth_okD(1) [OF ok, of c'] by simp
next
  fix c' assume "0 < ncli (cpus m c')"
  then show "\<not> eflags_if (cpus m c')" using depth_okD(2) [OF ok, of c'] by simp
next
  fix c' l' assume "c' \<noteq> c" "spinning m c' = Some l'"
  then show "l' < length (locks m)" using depth_okD(3) [OF ok, of c' l'] by simp
qed

lemma release_depth_ok:
  assumes ok: "depth_ok m" and l: "l < length (locks m)" and res: "release c l m = Inr m'"
  shows "depth_ok m'"
proof -
  from holding_ok [OF depth_ok_cpu [OF ok], of c l] obtain c2 where
    h: "holding c l m = Inr (held_by c (locks m ! l), m\<lparr>cpus := (cpus m)(c := c2)\<rparr>)"
    and n2: "ncli c2 = ncli (cpus m c)" and i2: "eflags_if c2 = eflags_if (cpus m c)"
    by blast
  let ?m1 = "m\<lparr>cpus := (cpus m)(c := c2)\<rparr>"
  let ?lk = "(locks m ! l)\<lparr>lk_cpu := None, locked := 0\<rparr>"
  let ?m2 = "?m1\<lparr>locks := (locks ?m1)[l := ?lk]\<rparr>"
  from res h have mine: "held_by c (locks m ! l)"
    by (auto simp: release_def split: if_splits)
  with res h obtain c' where pop: "popcli c2 = Inr c'" and m': "m' = ?m2\<lparr>cpus := (cpus ?m2)(c := c')\<rparr>"
    by (auto simp: release_def Let_def split: sum.splits)
  have "1 \<le> held_count m c" using l mine by (rule held_count_pos)
  then have n1: "1 \<le> ncli (cpus m c)" using depth_okD(1) [OF ok, of c] by (simp split: if_splits)
  from pop have nc': "ncli c' = ncli c2 - 1"
    and ic': "eflags_if c' \<longleftrightarrow> ncli c2 = 1 \<and> intena c2 \<noteq> 0"
    by (auto simp: popcli_def Let_def split: if_splits)
  have hc: "\<And>d. int (held_count m' d) = int (held_count m d) - (if d = c then 1 else 0)"
  proof -
    fix d
    have a: "held_by d (locks m ! l) \<longleftrightarrow> d = c" using mine by (auto simp: held_by_def)
    have b: "\<not> held_by d ?lk" by (simp add: held_by_def)
    have "locks m' = (locks m)[l := ?lk]" by (simp add: m')
    from held_count_update [OF l this, of d] a b
    show "int (held_count m' d) = int (held_count m d) - (if d = c then 1 else 0)" by simp
  qed
  show ?thesis
  proof (rule depth_okI)
    fix d
    show "int (held_count m' d) + (if spinning m' d = None then 0 else 1) \<le> ncli (cpus m' d)"
      using hc [of d] depth_okD(1) [OF ok, of d] nc' n2 by (cases "d = c") (simp_all add: m')
  next
    fix d assume pos: "0 < ncli (cpus m' d)"
    show "\<not> eflags_if (cpus m' d)"
    proof (cases "d = c")
      case True
      with pos nc' have "ncli c2 \<noteq> 1" by (simp add: m')
      with ic' True show ?thesis by (simp add: m')
    next
      case False
      with pos depth_okD(2) [OF ok, of d] show ?thesis by (simp add: m')
    qed
  next
    fix d l' assume "spinning m' d = Some l'"
    then show "l' < length (locks m')" using depth_okD(3) [OF ok, of d l'] by (simp add: m')
  qed
qed

lemma step_depth_ok:
  assumes "depth_ok m" "enabled a m" "step a m = Inr m'"
  shows "depth_ok m'"
proof (cases a)
  case (Acquire c l)
  with assms show ?thesis by (auto intro: acquire_depth_ok)
next
  case (Retry c)
  with assms obtain l where "spinning m c = Some l" by auto
  with assms Retry show ?thesis by (auto intro: retry_depth_ok)
next
  case (Release c l)
  with assms show ?thesis by (auto intro: release_depth_ok)
qed

lemma run_depth_ok:
  "depth_ok m \<Longrightarrow> run ops m = Some (Inr m') \<Longrightarrow> depth_ok m'"
proof (induction ops arbitrary: m)
  case Nil
  then show ?case by simp
next
  case (Cons a ops)
  from Cons.prems(2) have en: "enabled a m" by (simp split: if_splits)
  with Cons.prems(2) obtain m1 where st: "step a m = Inr m1" and rest: "run ops m1 = Some (Inr m')"
    by (auto split: sum.splits)
  from step_depth_ok [OF Cons.prems(1) en st] rest show ?case by (rule Cons.IH)
qed

lemma depth_ok_held:
  assumes "depth_ok m"
  shows "held_implies_cli m"
  unfolding held_implies_cli_def
proof (intro allI impI)
  fix c l assume a: "l < length (locks m) \<and> held_by c (locks m ! l)"
  then have "1 \<le> held_count m c" using held_count_pos [of l m c] by simp
  with depth_okD(1) [OF assms, of c] have one: "1 \<le> ncli (cpus m c)" by (simp split: if_splits)
  with depth_okD(2) [OF assms, of c] show "\<not> eflags_if (cpus m c) \<and> 1 \<le> ncli (cpus m c)" by simp
qed

lemma pushcli_funpow:
  assumes "ncli u = 0"
  shows "(pushcli ^^ Suc k) u =
     u\<lparr>ncli := int (Suc k), intena := (if eflags_if u then FL_IF else 0), eflags_if := False\<rparr>"
proof (induction k)
  case 0
  with assms show ?case by (simp add: pushcli_def Let_def)
next
  case (Suc k)
  have "(pushcli ^^ Suc (Suc k)) u = pushcli ((pushcli ^^ Suc k) u)" by simp
  also have "\<dots> = pushcli (u\<lparr>ncli := int (Suc k),
      intena := (if eflags_if u then FL_IF else 0), eflags_if := False\<rparr>)"
    by (simp only: Suc)
  also have "\<dots> = u\<lparr>ncli := int (Suc (Suc k)),
      intena := (if eflags_if u then FL_IF else 0), eflags_if := False\<rparr>"
    by (simp add: pushcli_def Let_def)
  finally show ?case .
qed

lemma popcli_times_nested:
  assumes "j \<le> k"
  shows "popcli_times j (u\<lparr>ncli := int (Suc k), intena := v, eflags_if := False\<rparr>) =
     Inr (u\<lparr>ncli := int (Suc k - j), intena := v, eflags_if := False\<rparr>)"
  using assms
proof (induction j arbitrary: k)
  case 0
  then show ?case by simp
next
  case (Suc j)
  then obtain k' where k: "k = Suc k'" by (cases k) auto
  have "popcli (u\<lparr>ncli := int (Suc k), intena := v, eflags_if := False\<rparr>) =
      Inr (u\<lparr>ncli := int (Suc k'), intena := v, eflags_if := False\<rparr>)"
    by (simp add: popcli_def Let_def k)
  moreover have "popcli_times j (u\<lparr>ncli := int (Suc k'), intena := v, eflags_if := False\<rparr>) =
      Inr (u\<lparr>ncli := int (Suc k' - j), intena := v, eflags_if := False\<rparr>)"
    using Suc.prems k by (intro Suc.IH) simp
  ultimately show ?case by (simp add: k)
qed

lemma popcli_last:
  "popcli (u\<lparr>ncli := 1, intena := v, eflags_if := False\<rparr>) =
     Inr (u\<lparr>ncli := 0, intena := v, eflags_if := (v \<noteq> 0)\<rparr>)"
  by (simp add: popcli_def Let_def)

lemma popcli_times_Suc_end:
  "popcli_times j u = Inr u' \<Longrightarrow> popcli_times (Suc j) u = popcli u'"
proof (induction j arbitrary: u)
  case 0
  then show ?case by (simp split: sum.splits)
next
  case (Suc j)
  from Suc.prems obtain x where x: "popcli u = Inr x" and rest: "popcli_times j x = Inr u'"
    by (auto split: sum.splits)
  have "popcli_times (Suc (Suc j)) u = popcli_times (Suc j) x" using x by simp
  also have "\<dots> = popcli u'" using rest by (rule Suc.IH)
  finally show ?case .
qed

lemma push_pop_balanced:
  assumes z: "ncli u = 0"
  shows "popcli_times (Suc k) ((pushcli ^^ Suc k) u) =
     Inr (u\<lparr>intena := (if eflags_if u then FL_IF else 0)\<rparr>)"
proof -
  let ?v = "if eflags_if u then FL_IF else 0"
  have "popcli_times k ((pushcli ^^ Suc k) u) =
      Inr (u\<lparr>ncli := int (Suc k - k), intena := ?v, eflags_if := False\<rparr>)"
    unfolding pushcli_funpow [OF z] by (rule popcli_times_nested) simp
  then have "popcli_times (Suc k) ((pushcli ^^ Suc k) u) =
      popcli (u\<lparr>ncli := int (Suc k - k), intena := ?v, eflags_if := False\<rparr>)"
    by (rule popcli_times_Suc_end)
  also have "\<dots> = Inr (u\<lparr>ncli := 0, intena := ?v, eflags_if := (?v \<noteq> 0)\<rparr>)"
    using popcli_last [where u = u and v = ?v] by simp
  also have "u\<lparr>ncli := 0, intena := ?v, eflags_if := (?v \<noteq> 0)\<rparr> = u\<lparr>intena := ?v\<rparr>"
    using z by (simp add: FL_IF_def)
  finally show ?thesis .
qed

text \<open>
  Claim C8.  Started in a state where no CPU's nesting depth is below the number of
  locks it holds (plus one if it is spinning in \<^verbatim>\<open>acquire\<close>) and interrupts are off
  wherever the depth is positive (after boot: nothing held, depth 0), every interleaving
  of \<^verbatim>\<open>acquire\<close> and \<^verbatim>\<open>release\<close> by the CPUs that does not panic ends in a state with
  the same property, in which therefore every held spinlock's owner has interrupts
  disabled and depth at least 1.  \<^verbatim>\<open>pushcli\<close> always leaves interrupts off and stores
  the interrupt-enable flag in \<^verbatim>\<open>intena\<close> only at depth 0; a \<^verbatim>\<open>popcli\<close> that returns
  leaves interrupts on only if it brought the depth from 1 to 0 and \<^verbatim>\<open>intena\<close> is set;
  so \<open>k + 1\<close> nested \<^verbatim>\<open>pushcli\<close> from depth 0 followed by fewer \<^verbatim>\<open>popcli\<close> keep
  interrupts off, and the last matching \<^verbatim>\<open>popcli\<close> puts the flag back as it was.
\<close>

theorem spinlock_interrupt_invariant:
  assumes start: "depth_ok m0" and exec: "run ops m0 = Some (Inr m)"
  shows "held_implies_cli m \<and> depth_ok m \<and>
    \<not> eflags_if (pushcli u) \<and> ncli (pushcli u) = ncli u + 1 \<and>
    intena (pushcli u) = (if ncli u = 0 then (if eflags_if u then FL_IF else 0) else intena u) \<and>
    (\<forall>u'. popcli u = Inr u' \<longrightarrow>
       ncli u' = ncli u - 1 \<and> (eflags_if u' \<longleftrightarrow> ncli u = 1 \<and> intena u \<noteq> 0)) \<and>
    (ncli u = 0 \<longrightarrow>
       (\<forall>j \<le> k. \<exists>u'. popcli_times j ((pushcli ^^ Suc k) u) = Inr u' \<and> \<not> eflags_if u' \<and>
           ncli u' = int (Suc k - j)) \<and>
       (\<exists>u'. popcli_times (Suc k) ((pushcli ^^ Suc k) u) = Inr u' \<and>
           eflags_if u' = eflags_if u \<and> ncli u' = 0))"
proof -
  have ok: "depth_ok m" using start exec by (rule run_depth_ok)
  then have held: "held_implies_cli m" by (rule depth_ok_held)
  have pop: "\<forall>u'. popcli u = Inr u' \<longrightarrow>
       ncli u' = ncli u - 1 \<and> (eflags_if u' \<longleftrightarrow> ncli u = 1 \<and> intena u \<noteq> 0)"
    by (auto simp: popcli_def Let_def split: if_splits)
  have nested: "ncli u = 0 \<longrightarrow>
       (\<forall>j \<le> k. \<exists>u'. popcli_times j ((pushcli ^^ Suc k) u) = Inr u' \<and> \<not> eflags_if u' \<and>
           ncli u' = int (Suc k - j)) \<and>
       (\<exists>u'. popcli_times (Suc k) ((pushcli ^^ Suc k) u) = Inr u' \<and>
           eflags_if u' = eflags_if u \<and> ncli u' = 0)"
  proof
    assume z: "ncli u = 0"
    have a: "\<forall>j \<le> k. \<exists>u'. popcli_times j ((pushcli ^^ Suc k) u) = Inr u' \<and> \<not> eflags_if u' \<and>
           ncli u' = int (Suc k - j)"
    proof (intro allI impI)
      fix j assume "j \<le> k"
      from popcli_times_nested [OF this, where u = u and v = "if eflags_if u then FL_IF else 0"]
      show "\<exists>u'. popcli_times j ((pushcli ^^ Suc k) u) = Inr u' \<and> \<not> eflags_if u' \<and>
           ncli u' = int (Suc k - j)"
        unfolding pushcli_funpow [OF z] by simp
    qed
    have b: "\<exists>u'. popcli_times (Suc k) ((pushcli ^^ Suc k) u) = Inr u' \<and>
           eflags_if u' = eflags_if u \<and> ncli u' = 0"
      using push_pop_balanced [OF z, of k] z by simp
    from a b show "(\<forall>j \<le> k. \<exists>u'. popcli_times j ((pushcli ^^ Suc k) u) = Inr u' \<and>
           \<not> eflags_if u' \<and> ncli u' = int (Suc k - j)) \<and>
       (\<exists>u'. popcli_times (Suc k) ((pushcli ^^ Suc k) u) = Inr u' \<and>
           eflags_if u' = eflags_if u \<and> ncli u' = 0)" by blast
  qed
  have p1: "\<not> eflags_if (pushcli u)" by simp
  have p2: "ncli (pushcli u) = ncli u + 1" by simp
  have p3: "intena (pushcli u) =
      (if ncli u = 0 then (if eflags_if u then FL_IF else 0) else intena u)" by simp
  show ?thesis by (intro conjI held ok p1 p2 p3 pop nested)
qed

theorem spinlock_interrupt_invariant_witness:
  "depth_ok machine0 \<and>
   (\<exists>m. run lock_ops0 machine0 = Some (Inr m) \<and> held_implies_cli m \<and>
      held_by 1 (locks m ! 0) \<and> \<not> eflags_if (cpus m 1) \<and> ncli (cpus m 1) = 1 \<and>
      eflags_if (cpus m 0) \<and> ncli (cpus m 0) = 0)"
proof -
  have h0: "depth_ok machine0"
    by (simp add: depth_ok_def machine0_def held_count_def held_by_def)
  have "\<exists>m. run lock_ops0 machine0 = Some (Inr m) \<and>
      held_by 1 (locks m ! 0) \<and> \<not> eflags_if (cpus m 1) \<and> ncli (cpus m 1) = 1 \<and>
      eflags_if (cpus m 0) \<and> ncli (cpus m 0) = 0"
    by (simp add: lock_ops0_def machine0_def acquire_def release_def holding_def xchg_turn_def
        pushcli_def popcli_def held_by_def Let_def FL_IF_def)
  then obtain m where r: "run lock_ops0 machine0 = Some (Inr m)"
    and rest: "held_by 1 (locks m ! 0)" "\<not> eflags_if (cpus m 1)" "ncli (cpus m 1) = 1"
      "eflags_if (cpus m 0)" "ncli (cpus m 0) = 0"
    by blast
  from spinlock_interrupt_invariant [OF h0 r] have "held_implies_cli m" by blast
  with h0 r rest show ?thesis by blast
qed

subsection \<open>\<^verbatim>\<open>sys_unlink\<close>\<close>

text \<open>What the operations on cached inodes leave in place.\<close>

lemma ino_upd_same:
  "k < length (icache s) \<Longrightarrow> ino (upd s k f) k = f (ino s k)"
  by (simp add: ino_def upd_def)

lemma ino_upd_other:
  "j \<noteq> k \<Longrightarrow> ino (upd s k f) j = ino s j"
  by (simp add: ino_def upd_def)

lemma length_upd:
  "length (icache (upd s k f)) = length (icache s)"
  by (simp add: upd_def)

lemma dinodes_upd:
  "dinodes (upd s k f) = dinodes s"
  by (simp add: upd_def)

lemma ino_dinodes_update:
  "ino (s\<lparr>dinodes := x\<rparr>) k = ino s k"
  by (simp add: ino_def)

lemma ino_iupdate_d:
  "ino (iupdate_d s k) j = ino s j"
  by (simp add: ino_def iupdate_d_def Let_def)

lemma length_iupdate_d:
  "length (icache (iupdate_d s k)) = length (icache s)"
  by (simp add: iupdate_d_def Let_def)

lemma dinodes_iupdate_d:
  "dinodes (iupdate_d s k) =
     (dinodes s)(m_inum (ino s k) :=
        (dinodes s (m_inum (ino s k)))\<lparr>dn_type := m_type (ino s k),
           dn_nlink := m_nlink (ino s k), dn_size := m_size (ino s k)\<rparr>)"
  by (simp add: iupdate_d_def Let_def)

lemma ilock_ok:
  assumes k: "k < length (icache s)"
    and r: "1 \<le> m_ref (ino s k)"
    and u: "\<not> m_locked (ino s k)"
    and t: "dn_type (dinodes s (m_inum (ino s k))) \<noteq> 0"
    and y: "m_valid (ino s k) \<noteq> 0 \<Longrightarrow>
            m_type (ino s k) = dn_type (dinodes s (m_inum (ino s k))) \<and>
            m_nlink (ino s k) = dn_nlink (dinodes s (m_inum (ino s k))) \<and>
            m_size (ino s k) = dn_size (dinodes s (m_inum (ino s k)))"
  shows "\<exists>s'. ilock s k = Inr s' \<and> dinodes s' = dinodes s \<and>
           length (icache s') = length (icache s) \<and>
           (\<forall>j. j \<noteq> k \<longrightarrow> ino s' j = ino s j) \<and>
           m_locked (ino s' k) \<and> m_valid (ino s' k) \<noteq> 0 \<and>
           m_ref (ino s' k) = m_ref (ino s k) \<and> m_inum (ino s' k) = m_inum (ino s k) \<and>
           m_dev (ino s' k) = m_dev (ino s k) \<and>
           m_type (ino s' k) = dn_type (dinodes s (m_inum (ino s k))) \<and>
           m_nlink (ino s' k) = dn_nlink (dinodes s (m_inum (ino s k))) \<and>
           m_size (ino s' k) = dn_size (dinodes s (m_inum (ino s k)))"
proof (cases "m_valid (ino s k) = 0")
  case True
  with k r u t show ?thesis
    by (simp add: ilock_def acquiresleep_def Let_def ino_upd_same ino_upd_other
        length_upd dinodes_upd)
next
  case False
  with k r u y [OF False] show ?thesis
    by (simp add: ilock_def acquiresleep_def Let_def ino_upd_same ino_upd_other
        length_upd dinodes_upd)
qed

lemma iput_ok:
  assumes k: "k < length (icache s)"
    and u: "\<not> m_locked (ino s k)"
  shows "\<exists>s'. iput s k = Inr s' \<and> length (icache s') = length (icache s) \<and>
           (\<forall>j. j \<noteq> k \<longrightarrow> ino s' j = ino s j) \<and>
           (\<forall>n. n \<noteq> m_inum (ino s k) \<longrightarrow> dinodes s' n = dinodes s n) \<and>
           (if m_valid (ino s k) \<noteq> 0 \<and> m_nlink (ino s k) = 0 \<and> m_ref (ino s k) = 1
            then dn_nlink (dinodes s' (m_inum (ino s k))) = 0 \<and>
                 dn_type (dinodes s' (m_inum (ino s k))) = 0
            else dinodes s' = dinodes s)"
proof (cases "m_valid (ino s k) \<noteq> 0 \<and> m_nlink (ino s k) = 0 \<and> m_ref (ino s k) = 1")
  case True
  with k u show ?thesis
    by (simp add: iput_def acquiresleep_def releasesleep_def itrunc_def Let_def
        ino_upd_same ino_upd_other length_upd dinodes_upd ino_iupdate_d length_iupdate_d
        dinodes_iupdate_d ino_dinodes_update)
next
  case False
  with k u show ?thesis
    by (auto simp add: iput_def acquiresleep_def releasesleep_def Let_def
        ino_upd_same ino_upd_other length_upd dinodes_upd)
qed

lemma iunlockput_ok:
  assumes k: "k < length (icache s)"
    and l: "m_locked (ino s k)"
    and r: "1 \<le> m_ref (ino s k)"
  shows "\<exists>s'. iunlockput s k = Inr s' \<and> length (icache s') = length (icache s) \<and>
           (\<forall>j. j \<noteq> k \<longrightarrow> ino s' j = ino s j) \<and>
           (\<forall>n. n \<noteq> m_inum (ino s k) \<longrightarrow> dinodes s' n = dinodes s n) \<and>
           (if m_valid (ino s k) \<noteq> 0 \<and> m_nlink (ino s k) = 0 \<and> m_ref (ino s k) = 1
            then dn_nlink (dinodes s' (m_inum (ino s k))) = 0 \<and>
                 dn_type (dinodes s' (m_inum (ino s k))) = 0
            else dinodes s' = dinodes s)"
proof -
  let ?s1 = "releasesleep s k"
  have il: "iunlock s k = Inr ?s1"
    using l r by (simp add: iunlock_def)
  have k1: "k < length (icache ?s1)"
    using k by (simp add: releasesleep_def length_upd)
  have u1: "\<not> m_locked (ino ?s1 k)"
    using k by (simp add: releasesleep_def ino_upd_same)
  have same: "m_valid (ino ?s1 k) = m_valid (ino s k)" "m_nlink (ino ?s1 k) = m_nlink (ino s k)"
    "m_ref (ino ?s1 k) = m_ref (ino s k)" "m_inum (ino ?s1 k) = m_inum (ino s k)"
    "dinodes ?s1 = dinodes s" "length (icache ?s1) = length (icache s)"
    using k by (simp_all add: releasesleep_def ino_upd_same length_upd dinodes_upd)
  have other: "j \<noteq> k \<Longrightarrow> ino ?s1 j = ino s j" for j
    by (simp add: releasesleep_def ino_upd_other)
  from iput_ok [OF k1 u1] obtain s' where
    ip: "iput ?s1 k = Inr s'" and
    len: "length (icache s') = length (icache ?s1)" and
    fr: "\<forall>j. j \<noteq> k \<longrightarrow> ino s' j = ino ?s1 j" and
    dk: "\<forall>n. n \<noteq> m_inum (ino ?s1 k) \<longrightarrow> dinodes s' n = dinodes ?s1 n" and
    tr: "if m_valid (ino ?s1 k) \<noteq> 0 \<and> m_nlink (ino ?s1 k) = 0 \<and> m_ref (ino ?s1 k) = 1
         then dn_nlink (dinodes s' (m_inum (ino ?s1 k))) = 0 \<and>
              dn_type (dinodes s' (m_inum (ino ?s1 k))) = 0
         else dinodes s' = dinodes ?s1"
    by blast
  have "iunlockput s k = Inr s'"
    using il ip by (simp add: iunlockput_def)
  moreover have "length (icache s') = length (icache s)"
    using len same by simp
  moreover have "\<forall>j. j \<noteq> k \<longrightarrow> ino s' j = ino s j"
    using fr other by simp
  moreover have "\<forall>n. n \<noteq> m_inum (ino s k) \<longrightarrow> dinodes s' n = dinodes s n"
    using dk same by simp
  moreover have "if m_valid (ino s k) \<noteq> 0 \<and> m_nlink (ino s k) = 0 \<and> m_ref (ino s k) = 1
            then dn_nlink (dinodes s' (m_inum (ino s k))) = 0 \<and>
                 dn_type (dinodes s' (m_inum (ino s k))) = 0
            else dinodes s' = dinodes s"
    using tr unfolding same .
  ultimately show ?thesis
    by blast
qed

lemma unlink_bad_ok:
  assumes "k < length (icache s)" and "m_locked (ino s k)" and "1 \<le> m_ref (ino s k)"
  shows "\<exists>s'. unlink_bad s k = Inr (- 1, s')"
  using iunlockput_ok [OF assms] by (auto simp: unlink_bad_def)

text \<open>\<^verbatim>\<open>iget\<close> returns a slot: the one that caches the inode, or a free one.\<close>

lemma iget_scan_Inl:
  "iget_scan xs k0 dev n free = Inl k \<Longrightarrow>
     k0 \<le> k \<and> k < k0 + length xs \<and> 0 < m_ref (xs ! (k - k0)) \<and>
     m_dev (xs ! (k - k0)) = dev \<and> m_inum (xs ! (k - k0)) = n"
proof (induction xs arbitrary: k0 free)
  case Nil
  then show ?case by simp
next
  case (Cons x xs)
  show ?case
  proof (cases "m_ref x > 0 \<and> m_dev x = dev \<and> m_inum x = n")
    case True
    with Cons.prems show ?thesis by simp
  next
    case False
    with Cons.prems have
      "iget_scan xs (Suc k0) dev n (if free = None \<and> m_ref x = 0 then Some k0 else free) = Inl k"
      by auto
    from Cons.IH [OF this] show ?thesis
      by (auto simp: Suc_diff_le)
  qed
qed

lemma iget_scan_Some:
  "iget_scan xs k0 dev n free = Inr (Some k) \<Longrightarrow>
     free = Some k \<or> (k0 \<le> k \<and> k < k0 + length xs \<and> m_ref (xs ! (k - k0)) = 0)"
proof (induction xs arbitrary: k0 free)
  case Nil
  then show ?case by simp
next
  case (Cons x xs)
  show ?case
  proof (cases "m_ref x > 0 \<and> m_dev x = dev \<and> m_inum x = n")
    case True
    with Cons.prems show ?thesis by simp
  next
    case False
    with Cons.prems have
      "iget_scan xs (Suc k0) dev n (if free = None \<and> m_ref x = 0 then Some k0 else free)
         = Inr (Some k)"
      by auto
    from Cons.IH [OF this] show ?thesis
      by (auto simp: Suc_diff_le split: if_splits)
  qed
qed

lemma iget_scan_None:
  "iget_scan xs k0 dev n free = Inr None \<Longrightarrow> free = None \<and> (\<forall>x \<in> set xs. m_ref x \<noteq> 0)"
proof (induction xs arbitrary: k0 free)
  case Nil
  then show ?case by simp
next
  case (Cons x xs)
  show ?case
  proof (cases "m_ref x > 0 \<and> m_dev x = dev \<and> m_inum x = n")
    case True
    with Cons.prems show ?thesis by simp
  next
    case False
    with Cons.prems have
      "iget_scan xs (Suc k0) dev n (if free = None \<and> m_ref x = 0 then Some k0 else free)
         = Inr None"
      by auto
    from Cons.IH [OF this] show ?thesis
      by (auto split: if_splits)
  qed
qed

lemma iget_ok:
  assumes free: "has_free_slot s"
  shows "\<exists>ip s'. iget s dev n = Inr (ip, s') \<and> ip < length (icache s) \<and>
           dinodes s' = dinodes s \<and> length (icache s') = length (icache s) \<and>
           (\<forall>j. j \<noteq> ip \<longrightarrow> ino s' j = ino s j) \<and>
           m_locked (ino s' ip) = m_locked (ino s ip) \<and>
           m_inum (ino s' ip) = n \<and> 1 \<le> m_ref (ino s' ip) \<and>
           ((0 < m_ref (ino s ip) \<and> m_dev (ino s ip) = dev \<and> m_inum (ino s ip) = n \<and>
             m_valid (ino s' ip) = m_valid (ino s ip) \<and> m_type (ino s' ip) = m_type (ino s ip) \<and>
             m_nlink (ino s' ip) = m_nlink (ino s ip) \<and> m_size (ino s' ip) = m_size (ino s ip))
            \<or> (m_ref (ino s ip) = 0 \<and> m_valid (ino s' ip) = 0))"
proof (cases "iget_scan (icache s) 0 dev n None")
  case (Inl k)
  from iget_scan_Inl [OF Inl] have
    k: "k < length (icache s)" and m: "0 < m_ref (ino s k)" "m_dev (ino s k) = dev"
      "m_inum (ino s k) = n"
    by (simp_all add: ino_def)
  with Inl show ?thesis
    by (simp add: iget_def ino_upd_same ino_upd_other length_upd dinodes_upd)
next
  case (Inr r)
  show ?thesis
  proof (cases r)
    case None
    with Inr iget_scan_None [of "icache s" 0 dev n None] have "\<forall>x \<in> set (icache s). m_ref x \<noteq> 0"
      by simp
    with free show ?thesis
      by (auto simp: has_free_slot_def ino_def)
  next
    case (Some k)
    with Inr iget_scan_Some [of "icache s" 0 dev n None k] have
      k: "k < length (icache s)" and z: "m_ref (ino s k) = 0"
      by (simp_all add: ino_def)
    with Inr Some show ?thesis
      by (simp add: iget_def ino_upd_same ino_upd_other length_upd dinodes_upd)
  qed
qed

text \<open>Reading a directory entry by entry.\<close>

lemma readi_de_entry:
  assumes "m_size (ino s dp) = sizeof_dirent * length es"
    and "es = dn_data (dinodes s (m_inum (ino s dp)))"
    and "k < length es"
  shows "readi_de s dp (sizeof_dirent * k) = (int sizeof_dirent, es ! k)"
proof -
  have "sizeof_dirent * Suc k \<le> sizeof_dirent * length es"
    using assms(3) by (intro mult_le_mono2) simp
  then have "sizeof_dirent * k + sizeof_dirent \<le> sizeof_dirent * length es"
    by simp
  moreover have "sizeof_dirent * k div sizeof_dirent = k"
    by (simp add: sizeof_dirent_def DIRSIZ_def)
  ultimately show ?thesis
    using assms by (simp add: readi_de_def Let_def nth_de_def)
qed

lemma sizeof_dirent_pos:
  "0 < sizeof_dirent"
  by (simp add: sizeof_dirent_def)

lemma off_lt_size:
  "(sizeof_dirent * k < sizeof_dirent * n) = (k < n)"
  by (simp add: sizeof_dirent_def DIRSIZ_def)

lemma off_next:
  "sizeof_dirent * k + sizeof_dirent = sizeof_dirent * Suc k"
  by simp

lemma dirlookup_from_found:
  assumes sz: "m_size (ino s dp) = sizeof_dirent * length es"
    and es: "es = dn_data (dinodes s (m_inum (ino s dp)))"
    and found: "dir_found es name j"
  shows "k \<le> j \<Longrightarrow>
         dirlookup_from s dp name (sizeof_dirent * k) =
           (case iget s (m_dev (ino s dp)) (de_inum (es ! j)) of
              Inl e \<Rightarrow> Inl e
            | Inr (ip, s') \<Rightarrow> Inr (Some (ip, sizeof_dirent * j), s'))"
proof (induction "j - k" arbitrary: k)
  case 0
  then have kj: "k = j" by simp
  from found have j: "j < length es" "de_inum (es ! j) \<noteq> 0" "namecmp name (de_name (es ! j)) = 0"
    by (simp_all add: dir_found_def)
  show ?case
    unfolding kj
    by (subst dirlookup_from.simps)
       (simp add: sz sizeof_dirent_pos j readi_de_entry [OF sz es j(1)])
next
  case (Suc d)
  then have kj: "k < j" and d: "d = j - Suc k" and le: "Suc k \<le> j" by simp_all
  from found kj have k: "k < length es"
    and skip: "de_inum (es ! k) = 0 \<or> namecmp name (de_name (es ! k)) \<noteq> 0"
    by (auto simp: dir_found_def)
  have step: "dirlookup_from s dp name (sizeof_dirent * k) =
              dirlookup_from s dp name (sizeof_dirent * Suc k)"
    using skip
    by (subst dirlookup_from.simps)
       (auto simp add: sz sizeof_dirent_pos k readi_de_entry [OF sz es k] off_next
          simp del: mult_Suc_right)
  show ?case
    unfolding step by (rule Suc.hyps(1) [OF d le])
qed

lemma isdirempty_from_char:
  assumes sz: "m_size (ino s dp) = sizeof_dirent * length es"
    and es: "es = dn_data (dinodes s (m_inum (ino s dp)))"
  shows "isdirempty_from s dp (sizeof_dirent * k) =
           Inr (if \<exists>i < length es. k \<le> i \<and> de_inum (es ! i) \<noteq> 0 then 0 else 1)"
proof (induction "length es - k" arbitrary: k)
  case 0
  then have "\<not> k < length es" by simp
  then show ?case
    by (subst isdirempty_from.simps) (auto simp add: sz sizeof_dirent_pos)
next
  case (Suc d)
  then have k: "k < length es" and d: "d = length es - Suc k" by simp_all
  show ?case
  proof (cases "de_inum (es ! k) \<noteq> 0")
    case True
    then have "\<exists>i < length es. k \<le> i \<and> de_inum (es ! i) \<noteq> 0"
      using k by auto
    with True show ?thesis
      by (subst isdirempty_from.simps)
         (simp add: sz sizeof_dirent_pos k readi_de_entry [OF sz es k])
  next
    case False
    have step: "isdirempty_from s dp (sizeof_dirent * k) =
                isdirempty_from s dp (sizeof_dirent * Suc k)"
      using False
      by (subst isdirempty_from.simps)
         (simp add: sz sizeof_dirent_pos k readi_de_entry [OF sz es k] off_next
            del: mult_Suc_right)
    have "(\<exists>i < length es. k \<le> i \<and> de_inum (es ! i) \<noteq> 0) =
          (\<exists>i < length es. Suc k \<le> i \<and> de_inum (es ! i) \<noteq> 0)"
      using False by (metis Suc_leD Suc_leI le_neq_implies_less)
    then show ?thesis
      unfolding step Suc.hyps(1) [OF d] by simp
  qed
qed

lemma isdirempty_char:
  assumes sz: "m_size (ino s dp) = sizeof_dirent * length es"
    and es: "es = dn_data (dinodes s (m_inum (ino s dp)))"
  shows "isdirempty s dp = Inr (if has_entries es then 0 else 1)"
  using isdirempty_from_char [OF sz es, of 2]
  by (simp add: isdirempty_def has_entries_def mult.commute)

lemma writei_de_entry:
  assumes sz: "m_size (ino s dp) = sizeof_dirent * length es"
    and es: "es = dn_data (dinodes s (m_inum (ino s dp)))"
    and j: "j < length es"
    and mx: "m_size (ino s dp) \<le> MAXFILE * BSIZE"
  shows "writei_de s dp (sizeof_dirent * j) de =
           (int sizeof_dirent,
            s\<lparr>dinodes := (dinodes s)(m_inum (ino s dp) :=
                 (dinodes s (m_inum (ino s dp)))\<lparr>dn_data := es[j := de]\<rparr>)\<rparr>)"
proof -
  have "sizeof_dirent * Suc j \<le> sizeof_dirent * length es"
    using j by (intro mult_le_mono2) simp
  then have le: "sizeof_dirent * j + sizeof_dirent \<le> m_size (ino s dp)"
    using sz by simp
  then have a: "\<not> sizeof_dirent * j > m_size (ino s dp)"
    and b: "\<not> sizeof_dirent * j + sizeof_dirent > m_size (ino s dp)"
    by simp_all
  have c: "\<not> sizeof_dirent * j + sizeof_dirent > MAXFILE * BSIZE"
    using le mx by simp
  have "MAXFILE * BSIZE < (2 :: nat) ^ 32"
    by (simp add: MAXFILE_def BSIZE_def NDIRECT_def NINDIRECT_def)
  with le mx have d: "\<not> sizeof_dirent * j + sizeof_dirent \<ge> 2 ^ 32"
    by simp
  have e: "sizeof_dirent * j div sizeof_dirent = j"
    by (simp add: sizeof_dirent_pos)
  show ?thesis
    unfolding writei_de_def Let_def
    using a b c d e j es by (simp add: put_de_def)
qed

text \<open>
  The way to the target: the parent is locked, the entry found, and the inode it names
  locked in its turn.
\<close>

lemma unlink_lookup:
  assumes dp: "dp < length (icache s1)" "1 \<le> m_ref (ino s1 dp)"
    and wf: "unlocked s1" "in_sync s1" "has_free_slot s1"
    and P: "P = m_inum (ino s1 dp)"
    and pdir: "dn_type (dinodes s1 P) = T_DIR" "whole (dinodes s1 P)"
    and es: "es = dn_data (dinodes s1 P)"
    and found: "dir_found es name j"
    and t: "t = de_inum (es ! j)" "t \<noteq> P" "dn_type (dinodes s1 t) \<noteq> 0"
  shows "\<exists>s2 s3 s4 ip. ilock s1 dp = Inr s2 \<and>
           dirlookup s2 dp name = Inr (Some (ip, sizeof_dirent * j), s3) \<and>
           ilock s3 ip = Inr s4 \<and> ip \<noteq> dp \<and> dinodes s4 = dinodes s1 \<and>
           holds_locked s4 dp P \<and> holds_locked s4 ip t"
proof -
  have ud: "\<not> m_locked (ino s1 dp)"
    using wf(1) dp(1) by (simp add: unlocked_def)
  have td: "dn_type (dinodes s1 (m_inum (ino s1 dp))) \<noteq> 0"
    using pdir(1) P by (simp add: T_DIR_def)
  have yd: "m_valid (ino s1 dp) \<noteq> 0 \<Longrightarrow>
            m_type (ino s1 dp) = dn_type (dinodes s1 (m_inum (ino s1 dp))) \<and>
            m_nlink (ino s1 dp) = dn_nlink (dinodes s1 (m_inum (ino s1 dp))) \<and>
            m_size (ino s1 dp) = dn_size (dinodes s1 (m_inum (ino s1 dp)))"
    using wf(2) dp by (simp add: in_sync_def)
  from ilock_ok [OF dp(1) dp(2) ud td yd] obtain s2 where
    l1: "ilock s1 dp = Inr s2" and d2: "dinodes s2 = dinodes s1" and
    n2: "length (icache s2) = length (icache s1)" and
    f2: "\<forall>j. j \<noteq> dp \<longrightarrow> ino s2 j = ino s1 j" and
    p2: "m_locked (ino s2 dp)" "m_valid (ino s2 dp) \<noteq> 0" "m_ref (ino s2 dp) = m_ref (ino s1 dp)"
      "m_inum (ino s2 dp) = P" "m_dev (ino s2 dp) = m_dev (ino s1 dp)"
      "m_type (ino s2 dp) = dn_type (dinodes s1 P)"
      "m_nlink (ino s2 dp) = dn_nlink (dinodes s1 P)"
      "m_size (ino s2 dp) = dn_size (dinodes s1 P)"
    unfolding P by blast
  have sz2: "m_size (ino s2 dp) = sizeof_dirent * length es"
    using p2(8) pdir(2) es by (simp add: whole_def)
  have es2: "es = dn_data (dinodes s2 (m_inum (ino s2 dp)))"
    using es d2 p2(4) by simp
  obtain k0 where k0: "k0 < length (icache s1)" "m_ref (ino s1 k0) = 0"
    using wf(3) by (auto simp: has_free_slot_def)
  with dp(2) have "k0 \<noteq> dp" by auto
  with k0 f2 n2 have free2: "has_free_slot s2"
    by (auto simp: has_free_slot_def)
  from iget_ok [OF free2, of "m_dev (ino s2 dp)" t] obtain ip s3 where
    g: "iget s2 (m_dev (ino s2 dp)) t = Inr (ip, s3)" and ipl: "ip < length (icache s2)" and
    d3: "dinodes s3 = dinodes s2" and n3: "length (icache s3) = length (icache s2)" and
    f3: "\<forall>j. j \<noteq> ip \<longrightarrow> ino s3 j = ino s2 j" and
    lk3: "m_locked (ino s3 ip) = m_locked (ino s2 ip)" and
    i3: "m_inum (ino s3 ip) = t" "1 \<le> m_ref (ino s3 ip)" and
    c3: "(0 < m_ref (ino s2 ip) \<and> m_dev (ino s2 ip) = m_dev (ino s2 dp) \<and> m_inum (ino s2 ip) = t \<and>
          m_valid (ino s3 ip) = m_valid (ino s2 ip) \<and> m_type (ino s3 ip) = m_type (ino s2 ip) \<and>
          m_nlink (ino s3 ip) = m_nlink (ino s2 ip) \<and> m_size (ino s3 ip) = m_size (ino s2 ip))
         \<or> (m_ref (ino s2 ip) = 0 \<and> m_valid (ino s3 ip) = 0)"
    by blast
  have ne: "ip \<noteq> dp"
    using c3 p2(3,4) dp(2) t(2) by auto
  have dl: "dirlookup s2 dp name = Inr (Some (ip, sizeof_dirent * j), s3)"
    using dirlookup_from_found [OF sz2 es2 found, of 0] g p2(6) pdir(1) t(1)
    by (simp add: dirlookup_def)
  have same2: "ino s2 ip = ino s1 ip"
    using f2 ne by simp
  have u3: "\<not> m_locked (ino s3 ip)"
    using lk3 same2 wf(1) ipl n2 by (simp add: unlocked_def)
  have ipl3: "ip < length (icache s3)"
    using ipl n3 by simp
  have t3: "dn_type (dinodes s3 (m_inum (ino s3 ip))) \<noteq> 0"
    using t(3) i3(1) d3 d2 by simp
  have y3: "m_valid (ino s3 ip) \<noteq> 0 \<Longrightarrow>
            m_type (ino s3 ip) = dn_type (dinodes s3 (m_inum (ino s3 ip))) \<and>
            m_nlink (ino s3 ip) = dn_nlink (dinodes s3 (m_inum (ino s3 ip))) \<and>
            m_size (ino s3 ip) = dn_size (dinodes s3 (m_inum (ino s3 ip)))"
  proof -
    assume v: "m_valid (ino s3 ip) \<noteq> 0"
    with c3 have c: "0 < m_ref (ino s1 ip)" "m_inum (ino s1 ip) = t" "m_valid (ino s1 ip) \<noteq> 0"
      "m_type (ino s3 ip) = m_type (ino s1 ip)" "m_nlink (ino s3 ip) = m_nlink (ino s1 ip)"
      "m_size (ino s3 ip) = m_size (ino s1 ip)"
      unfolding same2 by auto
    from wf(2) ipl n2 c(1) c(3) have
      "m_type (ino s1 ip) = dn_type (dinodes s1 (m_inum (ino s1 ip))) \<and>
       m_nlink (ino s1 ip) = dn_nlink (dinodes s1 (m_inum (ino s1 ip))) \<and>
       m_size (ino s1 ip) = dn_size (dinodes s1 (m_inum (ino s1 ip)))"
      by (simp add: in_sync_def)
    then show ?thesis
      using c i3(1) d3 d2 by simp
  qed
  from ilock_ok [OF ipl3 i3(2) u3 t3 y3] obtain s4 where
    l2: "ilock s3 ip = Inr s4" and d4: "dinodes s4 = dinodes s3" and
    n4: "length (icache s4) = length (icache s3)" and
    f4: "\<forall>j. j \<noteq> ip \<longrightarrow> ino s4 j = ino s3 j" and
    p4: "m_locked (ino s4 ip)" "m_valid (ino s4 ip) \<noteq> 0" "m_ref (ino s4 ip) = m_ref (ino s3 ip)"
      "m_inum (ino s4 ip) = m_inum (ino s3 ip)"
      "m_type (ino s4 ip) = dn_type (dinodes s3 (m_inum (ino s3 ip)))"
      "m_nlink (ino s4 ip) = dn_nlink (dinodes s3 (m_inum (ino s3 ip)))"
      "m_size (ino s4 ip) = dn_size (dinodes s3 (m_inum (ino s3 ip)))"
    by blast
  have dd: "dinodes s4 = dinodes s1"
    using d4 d3 d2 by simp
  have same4: "ino s4 dp = ino s2 dp"
    using f4 f3 ne by simp
  have hd: "holds_locked s4 dp P"
    unfolding holds_locked_def same4 dd
    using p2 dp n4 n3 n2 by simp
  have hi: "holds_locked s4 ip t"
    unfolding holds_locked_def dd
    using p4 i3 ipl3 n4 d3 d2 by simp
  show ?thesis
    using l1 dl l2 ne dd hd hi by blast
qed

lemma unlink_dots:
  assumes res: "nameiparent st cwd path name0 = Inr (Some dp, name, s1)"
    and dp: "dp < length (icache s1)" "1 \<le> m_ref (ino s1 dp)"
    and wf: "unlocked s1" "in_sync s1"
    and pdir: "dn_type (dinodes s1 (m_inum (ino s1 dp))) = T_DIR"
    and dots: "namecmp name ''.'' = 0 \<or> namecmp name ''..'' = 0"
  shows "\<exists>s'. sys_unlink st cwd (Some path) name0 = Inr (- 1, s')"
proof -
  have ud: "\<not> m_locked (ino s1 dp)"
    using wf(1) dp(1) by (simp add: unlocked_def)
  have td: "dn_type (dinodes s1 (m_inum (ino s1 dp))) \<noteq> 0"
    using pdir by (simp add: T_DIR_def)
  have yd: "m_valid (ino s1 dp) \<noteq> 0 \<Longrightarrow>
            m_type (ino s1 dp) = dn_type (dinodes s1 (m_inum (ino s1 dp))) \<and>
            m_nlink (ino s1 dp) = dn_nlink (dinodes s1 (m_inum (ino s1 dp))) \<and>
            m_size (ino s1 dp) = dn_size (dinodes s1 (m_inum (ino s1 dp)))"
    using wf(2) dp by (simp add: in_sync_def)
  from ilock_ok [OF dp(1) dp(2) ud td yd] obtain s2 where
    l1: "ilock s1 dp = Inr s2" and n2: "length (icache s2) = length (icache s1)" and
    p2: "m_locked (ino s2 dp)" "m_ref (ino s2 dp) = m_ref (ino s1 dp)"
    by blast
  have "\<exists>s'. unlink_bad s2 dp = Inr (- 1, s')"
    using dp n2 p2 by (intro unlink_bad_ok) simp_all
  then show ?thesis
    using res l1 dots by (auto simp: sys_unlink_def)
qed

lemma unlink_nonempty:
  assumes res: "nameiparent st cwd path name0 = Inr (Some dp, name, s1)"
    and dp: "dp < length (icache s1)" "1 \<le> m_ref (ino s1 dp)"
    and wf: "unlocked s1" "in_sync s1" "has_free_slot s1"
    and P: "P = m_inum (ino s1 dp)"
    and pdir: "dn_type (dinodes s1 P) = T_DIR" "whole (dinodes s1 P)"
    and es: "es = dn_data (dinodes s1 P)"
    and nodots: "namecmp name ''.'' \<noteq> 0" "namecmp name ''..'' \<noteq> 0"
    and found: "dir_found es name j"
    and t: "t = de_inum (es ! j)" "t \<noteq> P" "1 \<le> dn_nlink (dinodes s1 t)"
    and tdir: "dn_type (dinodes s1 t) = T_DIR" "whole (dinodes s1 t)"
      "has_entries (dn_data (dinodes s1 t))"
  shows "\<exists>s'. sys_unlink st cwd (Some path) name0 = Inr (- 1, s')"
proof -
  have t0: "dn_type (dinodes s1 t) \<noteq> 0"
    using tdir(1) by (simp add: T_DIR_def)
  from unlink_lookup [OF dp wf P pdir es found t(1) t(2) t0] obtain s2 s3 s4 ip where
    l1: "ilock s1 dp = Inr s2" and
    dl: "dirlookup s2 dp name = Inr (Some (ip, sizeof_dirent * j), s3)" and
    l2: "ilock s3 ip = Inr s4" and ne: "ip \<noteq> dp" and dd: "dinodes s4 = dinodes s1" and
    hd: "holds_locked s4 dp P" and hi: "holds_locked s4 ip t"
    by blast
  have nl: "\<not> m_nlink (ino s4 ip) < 1" and ty: "m_type (ino s4 ip) = T_DIR"
    using hi t(3) tdir(1) dd by (simp_all add: holds_locked_def)
  have sz: "m_size (ino s4 ip) = sizeof_dirent * length (dn_data (dinodes s1 t))"
    using hi tdir(2) dd by (simp add: holds_locked_def whole_def)
  have ed: "dn_data (dinodes s1 t) = dn_data (dinodes s4 (m_inum (ino s4 ip)))"
    using hi dd by (simp add: holds_locked_def)
  have em: "isdirempty s4 ip = Inr 0"
    using isdirempty_char [OF sz ed] tdir(3) by simp
  from hi have "ip < length (icache s4)" "m_locked (ino s4 ip)" "1 \<le> m_ref (ino s4 ip)"
    by (simp_all add: holds_locked_def)
  from iunlockput_ok [OF this] obtain s5 where
    up: "iunlockput s4 ip = Inr s5" and n5: "length (icache s5) = length (icache s4)" and
    f5: "\<forall>j. j \<noteq> ip \<longrightarrow> ino s5 j = ino s4 j"
    by blast
  have "ino s5 dp = ino s4 dp"
    using f5 ne by simp
  with hd n5 have "dp < length (icache s5)" "m_locked (ino s5 dp)" "1 \<le> m_ref (ino s5 dp)"
    by (simp_all add: holds_locked_def)
  from unlink_bad_ok [OF this] obtain s' where bad: "unlink_bad s5 dp = Inr (- 1, s')"
    by blast
  have "sys_unlink st cwd (Some path) name0 = Inr (- 1, s')"
    using res l1 nodots dl l2 nl ty em up bad by (simp add: sys_unlink_def)
  then show ?thesis
    by blast
qed

lemma unlink_removes:
  assumes res: "nameiparent st cwd path name0 = Inr (Some dp, name, s1)"
    and dp: "dp < length (icache s1)" "1 \<le> m_ref (ino s1 dp)"
    and wf: "unlocked s1" "in_sync s1" "has_free_slot s1"
    and P: "P = m_inum (ino s1 dp)"
    and pdir: "dn_type (dinodes s1 P) = T_DIR" "whole (dinodes s1 P)"
    and pmax: "dn_size (dinodes s1 P) \<le> MAXFILE * BSIZE"
    and pn: "1 \<le> dn_nlink (dinodes s1 P)"
    and es: "es = dn_data (dinodes s1 P)"
    and nodots: "namecmp name ''.'' \<noteq> 0" "namecmp name ''..'' \<noteq> 0"
    and found: "dir_found es name j"
    and t: "t = de_inum (es ! j)" "t \<noteq> P" "1 \<le> dn_nlink (dinodes s1 t)"
      "dn_type (dinodes s1 t) \<noteq> 0"
    and tdir: "dn_type (dinodes s1 t) = T_DIR \<Longrightarrow>
                 whole (dinodes s1 t) \<and> \<not> has_entries (dn_data (dinodes s1 t)) \<and>
                 2 \<le> dn_nlink (dinodes s1 P)"
  shows "\<exists>s'. sys_unlink st cwd (Some path) name0 = Inr (0, s') \<and>
           dn_data (dinodes s' P) = es[j := dirent_zero] \<and>
           dn_nlink (dinodes s' t) = dn_nlink (dinodes s1 t) - 1 \<and>
           dn_nlink (dinodes s' P) =
             (if dn_type (dinodes s1 t) = T_DIR then dn_nlink (dinodes s1 P) - 1
              else dn_nlink (dinodes s1 P))"
proof -
  from unlink_lookup [OF dp wf P pdir es found t(1) t(2) t(4)] obtain s2 s3 s4 ip where
    l1: "ilock s1 dp = Inr s2" and
    dl: "dirlookup s2 dp name = Inr (Some (ip, sizeof_dirent * j), s3)" and
    l2: "ilock s3 ip = Inr s4" and ne: "ip \<noteq> dp" and dd: "dinodes s4 = dinodes s1" and
    hd: "holds_locked s4 dp P" and hi: "holds_locked s4 ip t"
    by blast
  let ?T = "dn_type (dinodes s1 t) = T_DIR"
  have nl: "\<not> m_nlink (ino s4 ip) < 1" and ty: "m_type (ino s4 ip) = dn_type (dinodes s1 t)"
    using hi t(3) dd by (simp_all add: holds_locked_def)
  have em: "?T \<Longrightarrow> isdirempty s4 ip = Inr 1"
  proof -
    assume T: ?T
    have sz: "m_size (ino s4 ip) = sizeof_dirent * length (dn_data (dinodes s1 t))"
      using hi tdir [OF T] dd by (simp add: holds_locked_def whole_def)
    have ed: "dn_data (dinodes s1 t) = dn_data (dinodes s4 (m_inum (ino s4 ip)))"
      using hi dd by (simp add: holds_locked_def)
    show ?thesis
      using isdirempty_char [OF sz ed] tdir [OF T] by simp
  qed
  have dpl: "dp < length (icache s4)" and ipl: "ip < length (icache s4)"
    and inP: "m_inum (ino s4 dp) = P" and inT: "m_inum (ino s4 ip) = t"
    using hd hi by (simp_all add: holds_locked_def)
  have szP: "m_size (ino s4 dp) = sizeof_dirent * length es"
    using hd pdir(2) es dd by (simp add: holds_locked_def whole_def)
  have esP: "es = dn_data (dinodes s4 (m_inum (ino s4 dp)))"
    using es dd inP by simp
  have j: "j < length es"
    using found by (simp add: dir_found_def)
  have mx: "m_size (ino s4 dp) \<le> MAXFILE * BSIZE"
    using hd pmax dd by (simp add: holds_locked_def)
  define DP where "DP = (dinodes s1 P)\<lparr>dn_data := es[j := dirent_zero]\<rparr>"
  define s5 where "s5 = s4\<lparr>dinodes := (dinodes s1)(P := DP)\<rparr>"
  have wr: "writei_de s4 dp (sizeof_dirent * j) dirent_zero = (int sizeof_dirent, s5)"
    using writei_de_entry [OF szP esP j mx, of dirent_zero]
    by (simp add: s5_def DP_def inP dd)
  have i5: "ino s5 k = ino s4 k" for k
    by (simp add: s5_def ino_dinodes_update)
  have n5: "length (icache s5) = length (icache s4)"
    by (simp add: s5_def)
  have d5: "dinodes s5 = (dinodes s1)(P := DP)"
    by (simp add: s5_def)
  define s6 where "s6 = (if m_type (ino s5 ip) = T_DIR
      then iupdate_d (upd s5 dp (\<lambda>i. i\<lparr>m_nlink := dec_short (m_nlink i)\<rparr>)) dp else s5)"
  define np where "np = (if ?T then dn_nlink (dinodes s1 P) - 1 else dn_nlink (dinodes s1 P))"
  have np0: "np \<noteq> 0"
    using pn tdir by (auto simp: np_def)
  have n6: "length (icache s6) = length (icache s4)"
    by (simp add: s6_def length_iupdate_d length_upd n5)
  have o6: "k \<noteq> dp \<Longrightarrow> ino s6 k = ino s4 k" for k
    by (simp add: s6_def ino_iupdate_d ino_upd_other i5)
  have m4: "m_nlink (ino s4 dp) = dn_nlink (dinodes s1 P)" "m_type (ino s4 dp) = dn_type (dinodes s1 P)"
    "m_size (ino s4 dp) = dn_size (dinodes s1 P)" "m_locked (ino s4 dp)" "1 \<le> m_ref (ino s4 dp)"
    using hd dd by (simp_all add: holds_locked_def)
  have dsP: "dec_short (dn_nlink (dinodes s1 P)) = dn_nlink (dinodes s1 P) - 1"
    using pn by (simp add: dec_short_def)
  have p6: "m_locked (ino s6 dp)" "1 \<le> m_ref (ino s6 dp)" "m_inum (ino s6 dp) = P"
    "m_nlink (ino s6 dp) = np"
    using dpl m4 inP
    by (simp_all add: s6_def ino_iupdate_d ino_upd_same n5 i5 ty np_def dsP)
  have d6: "dinodes s6 = (dinodes s1)(P := DP\<lparr>dn_nlink := np\<rparr>)"
  proof (cases ?T)
    case True
    have "DP\<lparr>dn_type := dn_type (dinodes s1 P), dn_nlink := dn_nlink (dinodes s1 P) - 1,
             dn_size := dn_size (dinodes s1 P)\<rparr> = DP\<lparr>dn_nlink := dn_nlink (dinodes s1 P) - 1\<rparr>"
      by (simp add: DP_def)
    with True show ?thesis
      using dpl m4 inP
      by (simp add: s6_def dinodes_iupdate_d dinodes_upd ino_upd_same n5 i5 ty np_def dsP d5)
  next
    case False
    have "DP\<lparr>dn_nlink := dn_nlink (dinodes s1 P)\<rparr> = DP"
      by (simp add: DP_def)
    with False show ?thesis
      by (simp add: s6_def i5 ty np_def d5)
  qed
  have dpl6: "dp < length (icache s6)"
    using dpl n6 by simp
  from iunlockput_ok [OF dpl6 p6(1) p6(2)] np0 p6(4) obtain s7 where
    u7: "iunlockput s6 dp = Inr s7" and n7: "length (icache s7) = length (icache s6)" and
    f7: "\<forall>k. k \<noteq> dp \<longrightarrow> ino s7 k = ino s6 k" and d7: "dinodes s7 = dinodes s6"
    by auto
  have i7: "ino s7 ip = ino s4 ip"
    using f7 o6 ne by simp
  have ipl7: "ip < length (icache s7)"
    using ipl n7 n6 by simp
  define s8 where "s8 = iupdate_d (upd s7 ip (\<lambda>i. i\<lparr>m_nlink := dec_short (m_nlink i)\<rparr>)) ip"
  have t4: "m_nlink (ino s4 ip) = dn_nlink (dinodes s1 t)" "m_type (ino s4 ip) = dn_type (dinodes s1 t)"
    "m_size (ino s4 ip) = dn_size (dinodes s1 t)" "m_locked (ino s4 ip)" "1 \<le> m_ref (ino s4 ip)"
    using hi dd by (simp_all add: holds_locked_def)
  have dsT: "dec_short (dn_nlink (dinodes s1 t)) = dn_nlink (dinodes s1 t) - 1"
    using t(3) by (simp add: dec_short_def)
  have p8: "m_locked (ino s8 ip)" "1 \<le> m_ref (ino s8 ip)" "m_inum (ino s8 ip) = t"
    "m_nlink (ino s8 ip) = dn_nlink (dinodes s1 t) - 1"
    using ipl7 t4 inT by (simp_all add: s8_def ino_iupdate_d ino_upd_same i7 dsT)
  have ipl8: "ip < length (icache s8)"
    using ipl7 by (simp add: s8_def length_iupdate_d length_upd)
  have d8P: "dinodes s8 P = DP\<lparr>dn_nlink := np\<rparr>"
    using ipl7 inT t(2)
    by (simp add: s8_def dinodes_iupdate_d dinodes_upd ino_upd_same i7 d7 d6)
  have d8t: "dn_nlink (dinodes s8 t) = dn_nlink (dinodes s1 t) - 1"
    using ipl7 inT t4
    by (simp add: s8_def dinodes_iupdate_d dinodes_upd ino_upd_same i7 dsT)
  from iunlockput_ok [OF ipl8 p8(1) p8(2)] obtain s9 where
    u9: "iunlockput s8 ip = Inr s9" and
    f9: "\<forall>n. n \<noteq> m_inum (ino s8 ip) \<longrightarrow> dinodes s9 n = dinodes s8 n" and
    c9: "if m_valid (ino s8 ip) \<noteq> 0 \<and> m_nlink (ino s8 ip) = 0 \<and> m_ref (ino s8 ip) = 1
         then dn_nlink (dinodes s9 (m_inum (ino s8 ip))) = 0 \<and>
              dn_type (dinodes s9 (m_inum (ino s8 ip))) = 0
         else dinodes s9 = dinodes s8"
    by blast
  have d9P: "dinodes s9 P = DP\<lparr>dn_nlink := np\<rparr>"
    using f9 p8(3) t(2) d8P by simp
  have d9t: "dn_nlink (dinodes s9 t) = dn_nlink (dinodes s1 t) - 1"
    using c9 p8(3) p8(4) d8t by (auto split: if_splits)
  have w5: "m_type (ino s5 ip) = dn_type (dinodes s1 t)"
    by (simp add: i5 ty)
  have run: "sys_unlink st cwd (Some path) name0 = Inr (0, s9)"
  proof (cases ?T)
    case True
    with res l1 nodots dl l2 nl ty em [OF True] wr u7 u9 show ?thesis
      by (simp add: sys_unlink_def s6_def [symmetric] s8_def [symmetric] Let_def)
  next
    case False
    with res l1 nodots dl l2 nl ty wr u7 u9 show ?thesis
      by (simp add: sys_unlink_def s6_def [symmetric] s8_def [symmetric] Let_def)
  qed
  have "dn_data (dinodes s9 P) = es[j := dirent_zero]"
    by (simp add: d9P DP_def)
  moreover have "dn_nlink (dinodes s9 P) =
      (if ?T then dn_nlink (dinodes s1 P) - 1 else dn_nlink (dinodes s1 P))"
    by (simp add: d9P np_def)
  ultimately show ?thesis
    using run d9t by blast
qed

text \<open>
  Claim C6.  Let path resolution (\<^verbatim>\<open>nameiparent\<close>) return the parent directory \<open>dp\<close>, inode
  \<open>P\<close>, and the final component \<open>name\<close>.  If \<open>name\<close> is \<^verbatim>\<open>.\<close> or \<^verbatim>\<open>..\<close>, \<^verbatim>\<open>sys_unlink\<close> returns -1.
  Otherwise, if \<open>name\<close> names the inode \<open>t\<close> in entry \<open>j\<close> of the parent: when \<open>t\<close> is a
  directory with a live entry after its first two, \<^verbatim>\<open>sys_unlink\<close> returns -1; in the other
  case it returns 0, entry \<open>j\<close> of the parent is zeroed, the link count of \<open>t\<close> has gone
  down by one, and the link count of the parent has gone down by one exactly when \<open>t\<close> is
  a directory (the parent then had the link of the child's \<^verbatim>\<open>..\<close> besides its own).
\<close>

theorem sys_unlink_behaviour:
  assumes res: "nameiparent st cwd path name0 = Inr (Some dp, name, s1)"
    and ready: "parent_ready s1 dp"
    and P: "P = m_inum (ino s1 dp)"
  shows "(namecmp name ''.'' = 0 \<or> namecmp name ''..'' = 0 \<longrightarrow>
            (\<exists>s'. sys_unlink st cwd (Some path) name0 = Inr (- 1, s'))) \<and>
         (namecmp name ''.'' \<noteq> 0 \<and> namecmp name ''..'' \<noteq> 0 \<and> names_target s1 P name j t \<and>
          dn_type (dinodes s1 t) = T_DIR \<and> has_entries (dn_data (dinodes s1 t)) \<longrightarrow>
            (\<exists>s'. sys_unlink st cwd (Some path) name0 = Inr (- 1, s'))) \<and>
         (namecmp name ''.'' \<noteq> 0 \<and> namecmp name ''..'' \<noteq> 0 \<and> names_target s1 P name j t \<and>
          (dn_type (dinodes s1 t) = T_DIR \<longrightarrow>
             \<not> has_entries (dn_data (dinodes s1 t)) \<and> 2 \<le> dn_nlink (dinodes s1 P)) \<longrightarrow>
            (\<exists>s'. sys_unlink st cwd (Some path) name0 = Inr (0, s') \<and>
               dn_data (dinodes s' P) = (dn_data (dinodes s1 P))[j := dirent_zero] \<and>
               dn_nlink (dinodes s' t) = dn_nlink (dinodes s1 t) - 1 \<and>
               dn_nlink (dinodes s' P) =
                 (if dn_type (dinodes s1 t) = T_DIR then dn_nlink (dinodes s1 P) - 1
                  else dn_nlink (dinodes s1 P))))"
proof (intro conjI impI)
  from ready P have dp: "dp < length (icache s1)" "1 \<le> m_ref (ino s1 dp)"
    and wf: "unlocked s1" "in_sync s1" "has_free_slot s1"
    and pdir: "dn_type (dinodes s1 P) = T_DIR" "whole (dinodes s1 P)"
    and pmax: "dn_size (dinodes s1 P) \<le> MAXFILE * BSIZE"
    and pn: "1 \<le> dn_nlink (dinodes s1 P)"
    by (simp_all add: parent_ready_def)
  {
    assume "namecmp name ''.'' = 0 \<or> namecmp name ''..'' = 0"
    with res dp wf(1) wf(2) pdir(1) [unfolded P]
    show "\<exists>s'. sys_unlink st cwd (Some path) name0 = Inr (- 1, s')"
      by (rule unlink_dots)
  next
    assume a: "namecmp name ''.'' \<noteq> 0 \<and> namecmp name ''..'' \<noteq> 0 \<and> names_target s1 P name j t \<and>
          dn_type (dinodes s1 t) = T_DIR \<and> has_entries (dn_data (dinodes s1 t))"
    then have nt: "dir_found (dn_data (dinodes s1 P)) name j"
      "t = de_inum (dn_data (dinodes s1 P) ! j)" "t \<noteq> P" "1 \<le> dn_nlink (dinodes s1 t)"
      "whole (dinodes s1 t)"
      unfolding names_target_def by blast+
    from a show "\<exists>s'. sys_unlink st cwd (Some path) name0 = Inr (- 1, s')"
      by (intro unlink_nonempty [OF res dp wf P pdir refl _ _ nt(1) nt(2) nt(3) nt(4) _ nt(5)])
         simp_all
  next
    assume a: "namecmp name ''.'' \<noteq> 0 \<and> namecmp name ''..'' \<noteq> 0 \<and> names_target s1 P name j t \<and>
          (dn_type (dinodes s1 t) = T_DIR \<longrightarrow>
             \<not> has_entries (dn_data (dinodes s1 t)) \<and> 2 \<le> dn_nlink (dinodes s1 P))"
    then have nt: "dir_found (dn_data (dinodes s1 P)) name j"
      "t = de_inum (dn_data (dinodes s1 P) ! j)" "t \<noteq> P" "1 \<le> dn_nlink (dinodes s1 t)"
      "dn_type (dinodes s1 t) \<noteq> 0"
      and td: "dn_type (dinodes s1 t) = T_DIR \<Longrightarrow>
                 whole (dinodes s1 t) \<and> \<not> has_entries (dn_data (dinodes s1 t)) \<and>
                 2 \<le> dn_nlink (dinodes s1 P)"
      unfolding names_target_def by blast+
    from a show "\<exists>s'. sys_unlink st cwd (Some path) name0 = Inr (0, s') \<and>
               dn_data (dinodes s' P) = (dn_data (dinodes s1 P))[j := dirent_zero] \<and>
               dn_nlink (dinodes s' t) = dn_nlink (dinodes s1 t) - 1 \<and>
               dn_nlink (dinodes s' P) =
                 (if dn_type (dinodes s1 t) = T_DIR then dn_nlink (dinodes s1 P) - 1
                  else dn_nlink (dinodes s1 P))"
      by (intro unlink_removes [OF res dp wf P pdir pmax pn refl _ _ nt(1) nt(2) nt(3) nt(4) nt(5) td])
         simp_all
  }
qed

text \<open>
  The theorem at work on the small file system: \<^verbatim>\<open>/a/.\<close> is refused, \<^verbatim>\<open>/a\<close> is refused because
  \<^verbatim>\<open>a\<close> holds \<^verbatim>\<open>g\<close>, and \<^verbatim>\<open>/e\<close> is removed: entry 4 of the root is zeroed, the link count of
  inode 5 falls from 1 to 0 and that of the root from 3 to 2.
\<close>

theorem sys_unlink_behaviour_witness:
  "(\<exists>s'. sys_unlink fs_tree 0 (Some ''/a/.'') name_junk = Inr (- 1, s')) \<and>
   (\<exists>s'. sys_unlink fs_tree 0 (Some ''/a'') name_junk = Inr (- 1, s')) \<and>
   (\<exists>s'. sys_unlink fs_tree 0 (Some ''/e'') name_junk = Inr (0, s') \<and>
      dn_data (dinodes s' 1) =
        [mkde 1 ''.'', mkde 1 ''..'', mkde 2 ''a'', mkde 3 ''f'', dirent_zero] \<and>
      dn_nlink (dinodes s' 5) = 0 \<and> dn_nlink (dinodes s' 1) = 2)"
proof (intro conjI)
  let ?r = "nameiparent fs_tree 0 ''/a/.'' name_junk"
  let ?nm = "''.'' @ NUL # replicate 12 (CHR ''?'')"
  have "(case ?r of Inr (Some dp, nm, s) \<Rightarrow> dp = 1 \<and> nm = ?nm | _ \<Rightarrow> False)"
    by code_simp
  then have res: "?r = Inr (Some 1, ?nm, resolved ?r)"
    by (auto simp: resolved_def split: sum.splits prod.splits option.splits)
  have sz: "dn_size (dinodes (resolved ?r) (m_inum (ino (resolved ?r) 1))) = 48"
    by code_simp
  have "1 < length (icache (resolved ?r))" "1 \<le> m_ref (ino (resolved ?r) 1)"
    "unlocked (resolved ?r)" "in_sync (resolved ?r)" "has_free_slot (resolved ?r)"
    "dn_type (dinodes (resolved ?r) (m_inum (ino (resolved ?r) 1))) = T_DIR"
    "whole (dinodes (resolved ?r) (m_inum (ino (resolved ?r) 1)))"
    "1 \<le> dn_nlink (dinodes (resolved ?r) (m_inum (ino (resolved ?r) 1)))"
    by code_simp+
  then have ready: "parent_ready (resolved ?r) 1"
    unfolding parent_ready_def sz
    by (simp add: MAXFILE_def BSIZE_def NDIRECT_def NINDIRECT_def)
  have P: "2 = m_inum (ino (resolved ?r) 1)"
    by code_simp
  have dots: "namecmp ?nm ''.'' = 0"
    by code_simp
  from sys_unlink_behaviour [OF res ready P] dots
  show "\<exists>s'. sys_unlink fs_tree 0 (Some ''/a/.'') name_junk = Inr (- 1, s')"
    by blast
next
  let ?r = "nameiparent fs_tree 0 ''/a'' name_junk"
  let ?nm = "''a'' @ NUL # replicate 12 (CHR ''?'')"
  have "(case ?r of Inr (Some dp, nm, s) \<Rightarrow> dp = 0 \<and> nm = ?nm | _ \<Rightarrow> False)"
    by code_simp
  then have res: "?r = Inr (Some 0, ?nm, resolved ?r)"
    by (auto simp: resolved_def split: sum.splits prod.splits option.splits)
  have sz: "dn_size (dinodes (resolved ?r) (m_inum (ino (resolved ?r) 0))) = 80"
    by code_simp
  have "0 < length (icache (resolved ?r))" "1 \<le> m_ref (ino (resolved ?r) 0)"
    "unlocked (resolved ?r)" "in_sync (resolved ?r)" "has_free_slot (resolved ?r)"
    "dn_type (dinodes (resolved ?r) (m_inum (ino (resolved ?r) 0))) = T_DIR"
    "whole (dinodes (resolved ?r) (m_inum (ino (resolved ?r) 0)))"
    "1 \<le> dn_nlink (dinodes (resolved ?r) (m_inum (ino (resolved ?r) 0)))"
    by code_simp+
  then have ready: "parent_ready (resolved ?r) 0"
    unfolding parent_ready_def sz
    by (simp add: MAXFILE_def BSIZE_def NDIRECT_def NINDIRECT_def)
  have P: "1 = m_inum (ino (resolved ?r) 0)"
    by code_simp
  have h: "namecmp ?nm ''.'' \<noteq> 0 \<and> namecmp ?nm ''..'' \<noteq> 0 \<and>
           names_target (resolved ?r) 1 ?nm 2 2 \<and>
           dn_type (dinodes (resolved ?r) 2) = T_DIR \<and>
           has_entries (dn_data (dinodes (resolved ?r) 2))"
    by code_simp
  from sys_unlink_behaviour [OF res ready P, of 2 2] h
  show "\<exists>s'. sys_unlink fs_tree 0 (Some ''/a'') name_junk = Inr (- 1, s')"
    by blast
next
  let ?r = "nameiparent fs_tree 0 ''/e'' name_junk"
  let ?nm = "''e'' @ NUL # replicate 12 (CHR ''?'')"
  have "(case ?r of Inr (Some dp, nm, s) \<Rightarrow> dp = 0 \<and> nm = ?nm | _ \<Rightarrow> False)"
    by code_simp
  then have res: "?r = Inr (Some 0, ?nm, resolved ?r)"
    by (auto simp: resolved_def split: sum.splits prod.splits option.splits)
  have sz: "dn_size (dinodes (resolved ?r) (m_inum (ino (resolved ?r) 0))) = 80"
    by code_simp
  have "0 < length (icache (resolved ?r))" "1 \<le> m_ref (ino (resolved ?r) 0)"
    "unlocked (resolved ?r)" "in_sync (resolved ?r)" "has_free_slot (resolved ?r)"
    "dn_type (dinodes (resolved ?r) (m_inum (ino (resolved ?r) 0))) = T_DIR"
    "whole (dinodes (resolved ?r) (m_inum (ino (resolved ?r) 0)))"
    "1 \<le> dn_nlink (dinodes (resolved ?r) (m_inum (ino (resolved ?r) 0)))"
    by code_simp+
  then have ready: "parent_ready (resolved ?r) 0"
    unfolding parent_ready_def sz
    by (simp add: MAXFILE_def BSIZE_def NDIRECT_def NINDIRECT_def)
  have P: "1 = m_inum (ino (resolved ?r) 0)"
    by code_simp
  have h: "namecmp ?nm ''.'' \<noteq> 0 \<and> namecmp ?nm ''..'' \<noteq> 0 \<and>
           names_target (resolved ?r) 1 ?nm 4 5 \<and>
           (dn_type (dinodes (resolved ?r) 5) = T_DIR \<longrightarrow>
              \<not> has_entries (dn_data (dinodes (resolved ?r) 5)) \<and>
              2 \<le> dn_nlink (dinodes (resolved ?r) 1))"
    by code_simp
  have v: "(dn_data (dinodes (resolved ?r) 1))[4 := dirent_zero] =
             [mkde 1 ''.'', mkde 1 ''..'', mkde 2 ''a'', mkde 3 ''f'', dirent_zero]"
    "dn_nlink (dinodes (resolved ?r) 5) - 1 = 0"
    "(if dn_type (dinodes (resolved ?r) 5) = T_DIR then dn_nlink (dinodes (resolved ?r) 1) - 1
      else dn_nlink (dinodes (resolved ?r) 1)) = 2"
    by code_simp+
  from sys_unlink_behaviour [OF res ready P, of 4 5] h
  have "\<exists>s'. sys_unlink fs_tree 0 (Some ''/e'') name_junk = Inr (0, s') \<and>
          dn_data (dinodes s' 1) = (dn_data (dinodes (resolved ?r) 1))[4 := dirent_zero] \<and>
          dn_nlink (dinodes s' 5) = dn_nlink (dinodes (resolved ?r) 5) - 1 \<and>
          dn_nlink (dinodes s' 1) =
            (if dn_type (dinodes (resolved ?r) 5) = T_DIR
             then dn_nlink (dinodes (resolved ?r) 1) - 1
             else dn_nlink (dinodes (resolved ?r) 1))"
    by blast
  then show "\<exists>s'. sys_unlink fs_tree 0 (Some ''/e'') name_junk = Inr (0, s') \<and>
      dn_data (dinodes s' 1) =
        [mkde 1 ''.'', mkde 1 ''..'', mkde 2 ''a'', mkde 3 ''f'', dirent_zero] \<and>
      dn_nlink (dinodes s' 5) = 0 \<and> dn_nlink (dinodes s' 1) = 2"
    unfolding v .
qed

end
